theory Spec2Isabelle
  imports Complex_Main "HOL-Library.Product_Lexorder" "HOL-Library.Multiset"
    "HOL-Library.Log_Nat"
begin

section \<open>HHOA-FSSP: the flow-shop core of the Horse Herd optimiser\<close>

text \<open>
  A shallow embedding of the C++ sources: \<^verbatim>\<open>ProblemInstance\<close>, \<^verbatim>\<open>Solution\<close>,
  \<^verbatim>\<open>Horse\<close>, \<^verbatim>\<open>HorseHerd\<close> and \<^verbatim>\<open>HHOA\<close>.

  Conventions.
  \<^item> A C++ \<^verbatim>\<open>int\<close> is a HOL \<open>int\<close> in the 32-bit range. The sums of processing
    times (in the evaluator and in the greedy order) wrap around as two's-complement
    sums do (\<open>int_add\<close>); signed overflow is undefined in C++, and this is what the
    compiled program computes. Counters that only go up by one (ages, generations,
    stagnation counts, statistics) are not wrapped.
  \<^item> A C++ \<^verbatim>\<open>double\<close> is a HOL \<open>real\<close>. Where the program converts a product or a
    quotient of doubles to an \<^verbatim>\<open>int\<close> (the counts of moves, matings, replacements and
    random horses), the model computes in binary64, rounding to nearest with ties to
    even (\<open>b64_mult\<close>, \<open>b64_div\<close>), as the machine does. Elsewhere
    (rates compared with random draws, abilities, fitness, diversity) the arithmetic
    is exact.
  \<^item> A thrown exception is \<open>Inl e\<close> of the result type \<open>error + 'a\<close>. An integer
    remainder by zero, undefined in C++, is the error \<open>DivisionByZero\<close>.
  \<^item> Logging, console output and the wall-clock timer are left out.
  \<^item> A \<^verbatim>\<open>Solution\<close> carries its lazily computed makespan in \<^verbatim>\<open>mutable\<close> fields; the
    model keeps these fields, so a \<^verbatim>\<open>const\<close> getter returns the solution as well.
  \<^item> Field names drop the trailing underscore of the source (\<^verbatim>\<open>job_sequence_\<close> is
    \<open>job_sequence\<close>); the shared pointer \<^verbatim>\<open>instance_\<close> is the field \<open>the_instance\<close>.
\<close>

datatype error = InvalidArgument | OutOfRange | RuntimeError | DivisionByZero

subsection \<open>Machine arithmetic\<close>

text \<open>The sum of two \<^verbatim>\<open>int\<close>s: the 32-bit two's-complement result.\<close>

definition wrap32 :: "int \<Rightarrow> int" where
  "wrap32 x = (x + 2147483648) mod 4294967296 - 2147483648"

definition int_add :: "int \<Rightarrow> int \<Rightarrow> int" where
  "int_add a b = wrap32 (a + b)"

text \<open>
  A \<^verbatim>\<open>double\<close> that the program converts to an \<^verbatim>\<open>int\<close> is computed in binary64
  arithmetic: a sign, a mantissa \<open>m \<ge> 0\<close> and an exponent \<open>e\<close> stand for \<open>\<plusminus> m \<times> 2 ^ e\<close>, and
  every operation rounds its exact result to the nearest value with a mantissa of at
  most 53 bits, ties to the even mantissa; below the normal range the exponent stays at
  \<open>- 1074\<close>. Infinities and NaN do not occur at the places that use these operations and
  are not represented (a zero divisor gives zero here).
\<close>

type_synonym binary64 = "bool \<times> int \<times> int"

definition pow2 :: "int \<Rightarrow> real" where
  "pow2 e = (if e \<ge> 0 then of_int (2 ^ nat e) else 1 / of_int (2 ^ nat (- e)))"

definition b64_value :: "binary64 \<Rightarrow> real" where
  "b64_value x =
     (case x of (negative, m, e) \<Rightarrow> (if negative then - 1 else 1) * of_int m * pow2 e)"

text \<open>
  The binary64 value nearest to the fraction \<open>n / d\<close> of two positive integers, as
  mantissa and exponent. With \<open>b\<close> the difference of the bit lengths, \<open>n / d\<close> lies between
  \<open>2 ^ (b - 1)\<close> and \<open>2 ^ (b + 1)\<close>; \<open>e\<close> is the exponent of its leading bit, and the
  mantissa is \<open>n / d \<times> 2 ^ k\<close> rounded to an integer, where \<open>k = 52 - e\<close> in the normal range.
\<close>

definition round_fraction :: "int \<Rightarrow> int \<Rightarrow> int \<times> int" where
  "round_fraction n d =
     (let b = bitlen n - bitlen d;
          e = (if (if b \<ge> 0 then n \<ge> d * 2 ^ nat b else n * 2 ^ nat (- b) \<ge> d)
               then b else b - 1);
          k = 52 - max e (- 1022);
          n' = (if k \<ge> 0 then n * 2 ^ nat k else n);
          d' = (if k \<ge> 0 then d else d * 2 ^ nat (- k));
          q = n' div d';
          r = n' mod d'
      in (if 2 * r < d' then q else if 2 * r > d' then q + 1
          else if even q then q else q + 1,
          - k))"

text \<open>An \<^verbatim>\<open>int\<close> converts exactly.\<close>

definition b64_of_int :: "int \<Rightarrow> binary64" where
  "b64_of_int n = (n < 0, \<bar>n\<bar>, 0)"

text \<open>
  The binary64 value nearest to a real. A \<^verbatim>\<open>double\<close> of the program is such a value
  already and converts to itself; a real of the model that is not one (the rate \<open>3/10\<close>,
  the literal \<^verbatim>\<open>0.2\<close>) stands for the binary64 value nearest to it, which is what the
  program holds. For \<open>x > 0\<close>, \<open>binary_exponent x\<close> is the \<open>e\<close> with \<open>2 ^ e \<le> x < 2 ^ (e + 1)\<close>.
\<close>

definition binary_exponent :: "real \<Rightarrow> int" where
  "binary_exponent x = (if x \<ge> 1 then bitlen \<lfloor>x\<rfloor> - 1 else - bitlen (\<lceil>1 / x\<rceil> - 1))"

definition round_ties_even :: "real \<Rightarrow> int" where
  "round_ties_even q =
     (let f = \<lfloor>q\<rfloor>; t = 2 * q in
      if t < of_int (2 * f + 1) then f
      else if t > of_int (2 * f + 1) then f + 1
      else if even f then f else f + 1)"

definition b64_of_real :: "real \<Rightarrow> binary64" where
  "b64_of_real x =
     (if x = 0 then (False, 0, 0)
      else
        let k = 52 - max (binary_exponent \<bar>x\<bar>) (- 1022) in
        (x < 0,
         round_ties_even (if k \<ge> 0 then \<bar>x\<bar> * of_int (2 ^ nat k)
                          else \<bar>x\<bar> / of_int (2 ^ nat (- k))),
         - k))"

definition b64_mult :: "binary64 \<Rightarrow> binary64 \<Rightarrow> binary64" where
  "b64_mult x y =
     (case x of (s1, m1, e1) \<Rightarrow> case y of (s2, m2, e2) \<Rightarrow>
        if m1 = 0 \<or> m2 = 0 then (s1 \<noteq> s2, 0, 0)
        else case (if e1 + e2 \<ge> 0 then round_fraction (m1 * m2 * 2 ^ nat (e1 + e2)) 1
                   else round_fraction (m1 * m2) (2 ^ nat (- (e1 + e2)))) of
               (m, e) \<Rightarrow> (s1 \<noteq> s2, m, e))"

definition b64_div :: "binary64 \<Rightarrow> binary64 \<Rightarrow> binary64" where
  "b64_div x y =
     (case x of (s1, m1, e1) \<Rightarrow> case y of (s2, m2, e2) \<Rightarrow>
        if m1 = 0 \<or> m2 = 0 then (s1 \<noteq> s2, 0, 0)
        else case (if e1 - e2 \<ge> 0 then round_fraction (m1 * 2 ^ nat (e1 - e2)) m2
                   else round_fraction m1 (m2 * 2 ^ nat (e2 - e1))) of
               (m, e) \<Rightarrow> (s1 \<noteq> s2, m, e))"

text \<open>\<^verbatim>\<open>static_cast<int>\<close> of a \<^verbatim>\<open>double\<close> drops the fraction (the result is taken to fit).\<close>

definition b64_trunc :: "binary64 \<Rightarrow> int" where
  "b64_trunc x =
     (case x of (negative, m, e) \<Rightarrow>
        if negative then - (if e \<ge> 0 then m * 2 ^ nat e else m div 2 ^ nat (- e))
        else (if e \<ge> 0 then m * 2 ^ nat e else m div 2 ^ nat (- e)))"

subsection \<open>ProblemInstance\<close>

record ProblemInstance =
  num_jobs :: int
  num_machines :: int
  processing_times :: "int list list"

definition getProcessingTime :: "ProblemInstance \<Rightarrow> int \<Rightarrow> int \<Rightarrow> error + int" where
  "getProcessingTime inst job machine =
     (if job < 0 \<or> job \<ge> num_jobs inst \<or> machine < 0 \<or> machine \<ge> num_machines inst
      then Inl OutOfRange
      else Inr (processing_times inst ! nat job ! nat machine))"

definition ProblemInstance_isValid :: "ProblemInstance \<Rightarrow> bool" where
  "ProblemInstance_isValid inst =
     (if num_jobs inst \<le> 0 \<or> num_machines inst \<le> 0 then False
      else if int (length (processing_times inst)) \<noteq> num_jobs inst then False
      else list_all (\<lambda>job_times. int (length job_times) = num_machines inst
                       \<and> list_all (\<lambda>time. \<not> time < 0) job_times)
             (processing_times inst))"

text \<open>The constructor from a matrix of processing times.\<close>

definition ProblemInstance_of :: "int list list \<Rightarrow> ProblemInstance" where
  "ProblemInstance_of pts =
     \<lparr> num_jobs = int (length pts),
       num_machines = (if pts = [] then 0 else int (length (hd pts))),
       processing_times = pts \<rparr>"

subsection \<open>Solution\<close>

record Solution =
  job_sequence :: "int list"
  the_instance :: ProblemInstance
  makespan :: int
  makespan_calculated :: bool
  completion_times :: "int list list"

text \<open>\<^verbatim>\<open>Solution::Solution(instance)\<close>: the identity order.\<close>

definition Solution_new :: "ProblemInstance \<Rightarrow> error + Solution" where
  "Solution_new inst =
     (if \<not> ProblemInstance_isValid inst then Inl InvalidArgument
      else Inr \<lparr> job_sequence = map int [0..<nat (num_jobs inst)], the_instance = inst,
                 makespan = -1, makespan_calculated = False, completion_times = [] \<rparr>)"

text \<open>\<^verbatim>\<open>Solution::Solution(job_sequence, instance)\<close>.\<close>

definition Solution_of :: "int list \<Rightarrow> ProblemInstance \<Rightarrow> error + Solution" where
  "Solution_of js inst =
     (if \<not> ProblemInstance_isValid inst then Inl InvalidArgument
      else if int (length js) \<noteq> num_jobs inst then Inl InvalidArgument
      else Inr \<lparr> job_sequence = js, the_instance = inst,
                 makespan = -1, makespan_calculated = False, completion_times = [] \<rparr>)"

definition invalidateCache :: "Solution \<Rightarrow> Solution" where
  "invalidateCache s = s\<lparr> makespan_calculated := False, makespan := -1, completion_times := [] \<rparr>"

definition getNumJobs :: "Solution \<Rightarrow> int" where
  "getNumJobs s = int (length (job_sequence s))"

definition getJobAt :: "Solution \<Rightarrow> int \<Rightarrow> error + int" where
  "getJobAt s position =
     (if position < 0 \<or> position \<ge> int (length (job_sequence s)) then Inl OutOfRange
      else Inr (job_sequence s ! nat position))"

subsubsection \<open>The evaluator: \<^verbatim>\<open>Solution::calculateMakespan\<close>\<close>

definition set_cell :: "int list list \<Rightarrow> nat \<Rightarrow> nat \<Rightarrow> int \<Rightarrow> int list list" where
  "set_cell C pos machine v = C[pos := (C ! pos)[machine := v]]"

text \<open>The body of the inner loop, for one position and one machine.\<close>

definition calc_cell :: "ProblemInstance \<Rightarrow> int \<Rightarrow> nat \<Rightarrow> int list list \<Rightarrow> nat \<Rightarrow> error + int list list" where
  "calc_cell inst job pos C machine =
     (case getProcessingTime inst job (int machine) of
        Inl e \<Rightarrow> Inl e
      | Inr processing_time \<Rightarrow>
          Inr (if pos = 0 \<and> machine = 0 then set_cell C pos machine processing_time
               else if pos = 0 then
                 set_cell C pos machine (int_add (C ! pos ! (machine - 1)) processing_time)
               else if machine = 0 then
                 set_cell C pos machine (int_add (C ! (pos - 1) ! machine) processing_time)
               else
                 set_cell C pos machine
                   (int_add (max (C ! (pos - 1) ! machine) (C ! pos ! (machine - 1)))
                      processing_time)))"

fun machine_loop :: "ProblemInstance \<Rightarrow> int \<Rightarrow> nat \<Rightarrow> nat list \<Rightarrow> int list list \<Rightarrow> error + int list list" where
  "machine_loop inst job pos [] C = Inr C"
| "machine_loop inst job pos (machine # ms) C =
     (case calc_cell inst job pos C machine of
        Inl e \<Rightarrow> Inl e
      | Inr C' \<Rightarrow> machine_loop inst job pos ms C')"

fun pos_loop :: "ProblemInstance \<Rightarrow> int list \<Rightarrow> nat \<Rightarrow> nat list \<Rightarrow> int list list \<Rightarrow> error + int list list" where
  "pos_loop inst js m [] C = Inr C"
| "pos_loop inst js m (pos # ps) C =
     (case machine_loop inst (js ! pos) pos [0..<m] C of
        Inl e \<Rightarrow> Inl e
      | Inr C' \<Rightarrow> pos_loop inst js m ps C')"

definition calculateMakespan :: "Solution \<Rightarrow> error + Solution" where
  "calculateMakespan s =
     (let n = length (job_sequence s);
          m = nat (num_machines (the_instance s))
      in case pos_loop (the_instance s) (job_sequence s) m [0..<n]
                (replicate n (replicate m 0)) of
           Inl e \<Rightarrow> Inl e
         | Inr C \<Rightarrow>
             Inr (s\<lparr> completion_times := C,
                     makespan := (if n > 0 then C ! (n - 1) ! (m - 1) else 0),
                     makespan_calculated := True \<rparr>))"

text \<open>\<^verbatim>\<open>Solution::getMakespan() const\<close>: the value, and the solution with its cache filled.\<close>

definition getMakespan :: "Solution \<Rightarrow> error + (int \<times> Solution)" where
  "getMakespan s =
     (if \<not> makespan_calculated s then
        (case calculateMakespan s of Inl e \<Rightarrow> Inl e | Inr s' \<Rightarrow> Inr (makespan s', s'))
      else Inr (makespan s, s))"

subsubsection \<open>The recurrence of the specification\<close>

text \<open>
  The flow-shop recurrence in the specification's words:
  \<open>C[p][k] = processingTime(job at p, k) + max(C[p-1][k] if p>0 else 0, C[p][k-1] if k>0 else 0)\<close>.
\<close>

function flowshop_C :: "ProblemInstance \<Rightarrow> int list \<Rightarrow> nat \<Rightarrow> nat \<Rightarrow> int" where
  "flowshop_C inst js p k =
     processing_times inst ! nat (js ! p) ! k
       + max (if p > 0 then flowshop_C inst js (p - 1) k else 0)
             (if k > 0 then flowshop_C inst js p (k - 1) else 0)"
  by pat_completeness auto
termination
  by (relation "measure (\<lambda>(inst, js, p, k). p + k)") auto

declare flowshop_C.simps [simp del]

text \<open>
  The value the two loops of \<^verbatim>\<open>calculateMakespan\<close> store at position \<open>p\<close>, machine \<open>k\<close>,
  as a recursion with the four cases and the 32-bit sums of the source.
\<close>

function evaluator_C :: "ProblemInstance \<Rightarrow> int list \<Rightarrow> nat \<Rightarrow> nat \<Rightarrow> int" where
  "evaluator_C inst js p k =
     (if p = 0 \<and> k = 0 then processing_times inst ! nat (js ! p) ! k
      else if p = 0 then
        int_add (evaluator_C inst js p (k - 1)) (processing_times inst ! nat (js ! p) ! k)
      else if k = 0 then
        int_add (evaluator_C inst js (p - 1) k) (processing_times inst ! nat (js ! p) ! k)
      else
        int_add (max (evaluator_C inst js (p - 1) k) (evaluator_C inst js p (k - 1)))
          (processing_times inst ! nat (js ! p) ! k))"
  by pat_completeness auto
termination
  by (relation "measure (\<lambda>(inst, js, p, k). p + k)") auto

declare evaluator_C.simps [simp del]

text \<open>The jobs of a sequence are job indices of the instance.\<close>

definition jobs_in_range :: "ProblemInstance \<Rightarrow> int list \<Rightarrow> bool" where
  "jobs_in_range inst js = list_all (\<lambda>job. 0 \<le> job \<and> job < num_jobs inst) js"

text \<open>The invariant of the two loops: the matrix keeps its shape, and every cell before
  position \<open>p\<close>, machine \<open>k\<close> (in the order of the loops) holds the evaluator's value.\<close>

definition shape :: "nat \<Rightarrow> nat \<Rightarrow> int list list \<Rightarrow> bool" where
  "shape n m C = (length C = n \<and> (\<forall>p < n. length (C ! p) = m))"

definition filled :: "ProblemInstance \<Rightarrow> int list \<Rightarrow> nat \<Rightarrow> int list list \<Rightarrow> nat \<Rightarrow> nat \<Rightarrow> bool" where
  "filled inst js m C p k =
     (\<forall>p' k'. k' < m \<and> (p' < p \<or> (p' = p \<and> k' < k)) \<longrightarrow> C ! p' ! k' = evaluator_C inst js p' k')"


subsubsection \<open>The worked example of the specification\<close>

definition example_instance :: ProblemInstance where
  "example_instance = ProblemInstance_of [[5,3,4],[4,5,3],[3,4,5],[5,4,3]]"

definition example_identity :: Solution where
  "example_identity = \<lparr> job_sequence = [0, 1, 2, 3], the_instance = example_instance,
     makespan = -1, makespan_calculated = False, completion_times = [] \<rparr>"


subsection \<open>Random\<close>

text \<open>
  \<^verbatim>\<open>Random\<close> wraps a \<^verbatim>\<open>std::mt19937\<close> and the distributions of the standard library.
  The model replaces the generator's state by the tape of raw values still to be drawn
  (integers; an exhausted tape yields 0): \<^verbatim>\<open>randInt(min, max)\<close> reduces the next raw value into
  \<open>[min, max]\<close>, \<^verbatim>\<open>randDouble()\<close> into the multiples of \<open>2\<^sup>-\<^sup>5\<^sup>3\<close> in \<open>[0, 1)\<close>. Every outcome
  the library can produce is produced by some tape, so a statement for all tapes is a
  statement for every random choice.
\<close>

type_synonym Rng = "int list"

definition next_raw :: "Rng \<Rightarrow> int \<times> Rng" where
  "next_raw g = (case g of [] \<Rightarrow> (0, []) | r # g' \<Rightarrow> (r, g'))"

definition randInt :: "int \<Rightarrow> int \<Rightarrow> Rng \<Rightarrow> error + (int \<times> Rng)" where
  "randInt lo hi g =
     (if lo > hi then Inl InvalidArgument
      else case next_raw g of (r, g') \<Rightarrow> Inr (lo + r mod (hi - lo + 1), g'))"

definition randDouble :: "Rng \<Rightarrow> real \<times> Rng" where
  "randDouble g = (case next_raw g of (r, g') \<Rightarrow> (real_of_int (r mod 2 ^ 53) / 2 ^ 53, g'))"

definition randBool :: "real \<Rightarrow> Rng \<Rightarrow> error + (bool \<times> Rng)" where
  "randBool probability g =
     (if probability < 0 \<or> probability > 1 then Inl InvalidArgument
      else case randDouble g of (d, g') \<Rightarrow> Inr (d < probability, g'))"

text \<open>
  \<^verbatim>\<open>Random::shuffle\<close> is \<^verbatim>\<open>std::shuffle\<close>, whose use of the generator the standard leaves
  to the implementation. The model is the Fisher-Yates loop: for \<open>i\<close> from the last
  index down to 1, exchange the element at \<open>i\<close> with the one at a uniform index of \<open>[0, i]\<close>.
\<close>

definition swap_at :: "'a list \<Rightarrow> nat \<Rightarrow> nat \<Rightarrow> 'a list" where
  "swap_at xs i j = xs[i := xs ! j, j := xs ! i]"

fun shuffle_loop :: "nat \<Rightarrow> 'a list \<Rightarrow> Rng \<Rightarrow> 'a list \<times> Rng" where
  "shuffle_loop 0 xs g = (xs, g)"
| "shuffle_loop (Suc i) xs g =
     (case next_raw g of (r, g') \<Rightarrow> shuffle_loop i (swap_at xs (Suc i) (nat (r mod int (Suc (Suc i))))) g')"

definition rng_shuffle :: "'a list \<Rightarrow> Rng \<Rightarrow> 'a list \<times> Rng" where
  "rng_shuffle xs g = shuffle_loop (length xs - 1) xs g"

definition sample :: "int \<Rightarrow> int \<Rightarrow> Rng \<Rightarrow> error + (int list \<times> Rng)" where
  "sample population_size sample_size g =
     (if population_size < 0 \<or> sample_size < 0 then Inl InvalidArgument
      else if sample_size > population_size then Inl InvalidArgument
      else case rng_shuffle (map int [0..<nat population_size]) g of
             (population, g') \<Rightarrow> Inr (take (nat sample_size) population, g'))"

subsection \<open>Solution: mutators, validity, neighbourhoods\<close>

definition swapJobs :: "Solution \<Rightarrow> int \<Rightarrow> int \<Rightarrow> error + Solution" where
  "swapJobs s pos1 pos2 =
     (if pos1 < 0 \<or> pos1 \<ge> int (length (job_sequence s)) \<or>
         pos2 < 0 \<or> pos2 \<ge> int (length (job_sequence s)) then Inl OutOfRange
      else Inr (invalidateCache
                  (s\<lparr> job_sequence := swap_at (job_sequence s) (nat pos1) (nat pos2) \<rparr>)))"

definition Solution_initializeRandom :: "Solution \<Rightarrow> Rng \<Rightarrow> Solution \<times> Rng" where
  "Solution_initializeRandom s g =
     (case rng_shuffle (job_sequence s) g of
        (js, g') \<Rightarrow> (invalidateCache (s\<lparr> job_sequence := js \<rparr>), g'))"

text \<open>
  \<^verbatim>\<open>Solution::initializeGreedy\<close>: jobs in ascending order of the pair (total processing
  time, job). The loops read \<^verbatim>\<open>getProcessingTime\<close> inside the bounds it checks, so the
  read cannot throw; \<^verbatim>\<open>std::sort\<close> on distinct pairs has one result. The sequence has
  one entry per job (the constructors see to it), so the final loop rewrites all of it.
\<close>

definition job_total_times :: "ProblemInstance \<Rightarrow> (int \<times> int) list" where
  "job_total_times inst =
     map (\<lambda>job. (foldl int_add 0 (map (\<lambda>machine. processing_times inst ! job ! machine)
                                    [0..<nat (num_machines inst)]), int job))
         [0..<nat (num_jobs inst)]"

definition Solution_initializeGreedy :: "Solution \<Rightarrow> Solution" where
  "Solution_initializeGreedy s =
     invalidateCache (s\<lparr> job_sequence := map snd (sort (job_total_times (the_instance s))) \<rparr>)"

fun isValid_loop :: "int \<Rightarrow> int list \<Rightarrow> bool list \<Rightarrow> bool" where
  "isValid_loop n [] used = True"
| "isValid_loop n (job # js) used =
     (if job < 0 \<or> job \<ge> n \<or> used ! nat job then False
      else isValid_loop n js (used[nat job := True]))"

definition Solution_isValid :: "Solution \<Rightarrow> bool" where
  "Solution_isValid s =
     (if int (length (job_sequence s)) \<noteq> num_jobs (the_instance s) then False
      else isValid_loop (num_jobs (the_instance s)) (job_sequence s)
             (replicate (nat (num_jobs (the_instance s))) False))"

text \<open>\<^verbatim>\<open>vector::erase\<close> at an index and \<^verbatim>\<open>vector::insert\<close> before an index.\<close>

definition erase_at :: "'a list \<Rightarrow> nat \<Rightarrow> 'a list" where
  "erase_at xs i = take i xs @ drop (Suc i) xs"

definition insert_at :: "'a list \<Rightarrow> nat \<Rightarrow> 'a \<Rightarrow> 'a list" where
  "insert_at xs i x = take i xs @ x # drop i xs"

text \<open>\<^verbatim>\<open>Solution::apply2Opt\<close>: every pair \<open>i < j\<close> is tried; there is no \<^verbatim>\<open>break\<close>.\<close>

fun apply2Opt_inner :: "nat \<Rightarrow> nat list \<Rightarrow> bool \<times> int \<times> Solution \<Rightarrow> error + (bool \<times> int \<times> Solution)" where
  "apply2Opt_inner i [] st = Inr st"
| "apply2Opt_inner i (j # js) (improved, current_makespan, s) =
     (case swapJobs s (int i) (int j) of
        Inl e \<Rightarrow> Inl e
      | Inr s1 \<Rightarrow>
         (case getMakespan s1 of
            Inl e \<Rightarrow> Inl e
          | Inr (new_makespan, s2) \<Rightarrow>
              if new_makespan < current_makespan
              then apply2Opt_inner i js (True, new_makespan, s2)
              else (case swapJobs s2 (int i) (int j) of
                      Inl e \<Rightarrow> Inl e
                    | Inr s3 \<Rightarrow> apply2Opt_inner i js (improved, current_makespan, s3))))"

fun apply2Opt_outer :: "nat \<Rightarrow> nat list \<Rightarrow> bool \<times> int \<times> Solution \<Rightarrow> error + (bool \<times> int \<times> Solution)" where
  "apply2Opt_outer n [] st = Inr st"
| "apply2Opt_outer n (i # is) st =
     (case apply2Opt_inner i [Suc i..<n] st of
        Inl e \<Rightarrow> Inl e
      | Inr st' \<Rightarrow> apply2Opt_outer n is st')"

definition apply2Opt :: "Solution \<Rightarrow> error + (bool \<times> Solution)" where
  "apply2Opt s =
     (case getMakespan s of
        Inl e \<Rightarrow> Inl e
      | Inr (current_makespan, s0) \<Rightarrow>
         (let n = length (job_sequence s0) in
          case apply2Opt_outer n [0..<n - 1] (False, current_makespan, s0) of
            Inl e \<Rightarrow> Inl e
          | Inr (improved, _, s') \<Rightarrow> Inr (improved, s')))"

text \<open>
  \<^verbatim>\<open>Solution::applyInsertionSearch\<close>. The move edits \<^verbatim>\<open>job_sequence_\<close> in place and
  does not call \<^verbatim>\<open>invalidateCache\<close>; only the revert does. The model does the same, so
  \<^verbatim>\<open>getMakespan\<close> after a move answers from whatever cache the solution then has.
\<close>

definition insertion_target :: "nat \<Rightarrow> nat \<Rightarrow> nat" where
  "insertion_target i j = (if j > i then j - 1 else j)"

fun applyInsertionSearch_inner :: "nat \<Rightarrow> nat list \<Rightarrow> bool \<times> int \<times> Solution \<Rightarrow> error + (bool \<times> int \<times> Solution)" where
  "applyInsertionSearch_inner i [] st = Inr st"
| "applyInsertionSearch_inner i (j # js) (improved, current_makespan, s) =
     (if i = j then applyInsertionSearch_inner i js (improved, current_makespan, s)
      else
        let job = job_sequence s ! i;
            s1 = s\<lparr> job_sequence :=
                      insert_at (erase_at (job_sequence s) i) (insertion_target i j) job \<rparr>
        in case getMakespan s1 of
             Inl e \<Rightarrow> Inl e
           | Inr (new_makespan, s2) \<Rightarrow>
               if new_makespan < current_makespan
               then applyInsertionSearch_inner i js (True, new_makespan, s2)
               else applyInsertionSearch_inner i js
                      (improved, current_makespan,
                       invalidateCache
                         (s2\<lparr> job_sequence :=
                                insert_at (erase_at (job_sequence s2) (insertion_target i j)) i job \<rparr>)))"

fun applyInsertionSearch_outer :: "nat \<Rightarrow> nat list \<Rightarrow> bool \<times> int \<times> Solution \<Rightarrow> error + (bool \<times> int \<times> Solution)" where
  "applyInsertionSearch_outer n [] st = Inr st"
| "applyInsertionSearch_outer n (i # is) st =
     (case applyInsertionSearch_inner i [0..<n] st of
        Inl e \<Rightarrow> Inl e
      | Inr st' \<Rightarrow> applyInsertionSearch_outer n is st')"

definition applyInsertionSearch :: "Solution \<Rightarrow> error + (bool \<times> Solution)" where
  "applyInsertionSearch s =
     (case getMakespan s of
        Inl e \<Rightarrow> Inl e
      | Inr (current_makespan, s0) \<Rightarrow>
         (let n = length (job_sequence s0) in
          case applyInsertionSearch_outer n [0..<n] (False, current_makespan, s0) of
            Inl e \<Rightarrow> Inl e
          | Inr (improved, _, s') \<Rightarrow> Inr (improved, s')))"

definition createSwapNeighbor :: "Solution \<Rightarrow> Rng \<Rightarrow> error + (Solution \<times> Rng)" where
  "createSwapNeighbor s g =
     (case randInt 0 (int (length (job_sequence s)) - 1) g of
        Inl e \<Rightarrow> Inl e
      | Inr (pos1, g1) \<Rightarrow>
         (case randInt 0 (int (length (job_sequence s)) - 1) g1 of
            Inl e \<Rightarrow> Inl e
          | Inr (pos2, g2) \<Rightarrow>
             (case swapJobs s pos1 pos2 of
                Inl e \<Rightarrow> Inl e
              | Inr neighbor \<Rightarrow> Inr (neighbor, g2))))"

definition createInsertNeighbor :: "Solution \<Rightarrow> Rng \<Rightarrow> error + (Solution \<times> Rng)" where
  "createInsertNeighbor s g =
     (case randInt 0 (int (length (job_sequence s)) - 1) g of
        Inl e \<Rightarrow> Inl e
      | Inr (from_pos, g1) \<Rightarrow>
         (case randInt 0 (int (length (job_sequence s)) - 1) g1 of
            Inl e \<Rightarrow> Inl e
          | Inr (to_pos, g2) \<Rightarrow>
              if from_pos \<noteq> to_pos then
                Inr (invalidateCache
                       (s\<lparr> job_sequence :=
                              insert_at (erase_at (job_sequence s) (nat from_pos))
                                (nat (if to_pos > from_pos then to_pos - 1 else to_pos))
                                (job_sequence s ! nat from_pos) \<rparr>), g2)
              else Inr (s, g2)))"

definition INT_MAX :: int where
  "INT_MAX = 2147483647"

definition distanceTo :: "Solution \<Rightarrow> Solution \<Rightarrow> int" where
  "distanceTo s other =
     (if length (job_sequence s) \<noteq> length (job_sequence other) then INT_MAX
      else int (length (filter (\<lambda>(a, b). a \<noteq> b) (zip (job_sequence s) (job_sequence other)))))"

subsection \<open>Horse\<close>

record Horse =
  solution :: Solution
  best_solution :: Solution
  fitness :: real
  best_fitness :: real
  age :: real
  grazing_ability :: real
  stamina :: real
  is_leader :: bool
  stagnation_counter :: int

definition calculateFitness :: "int \<Rightarrow> real" where
  "calculateFitness m = (if m > 0 then - real_of_int m else -1000000)"

definition updateFitness :: "Horse \<Rightarrow> error + Horse" where
  "updateFitness h =
     (case getMakespan (solution h) of
        Inl e \<Rightarrow> Inl e
      | Inr (m, s') \<Rightarrow> Inr (h\<lparr> solution := s', fitness := calculateFitness m \<rparr>))"

definition updateBest :: "Horse \<Rightarrow> bool \<times> Horse" where
  "updateBest h =
     (if fitness h > best_fitness h
      then (True, h\<lparr> best_solution := solution h, best_fitness := fitness h \<rparr>)
      else (False, h))"

definition Horse_getMakespan :: "Horse \<Rightarrow> error + (int \<times> Horse)" where
  "Horse_getMakespan h =
     (case getMakespan (solution h) of
        Inl e \<Rightarrow> Inl e
      | Inr (m, s') \<Rightarrow> Inr (m, h\<lparr> solution := s' \<rparr>))"

definition getBestMakespan :: "Horse \<Rightarrow> error + (int \<times> Horse)" where
  "getBestMakespan h =
     (case getMakespan (best_solution h) of
        Inl e \<Rightarrow> Inl e
      | Inr (m, s') \<Rightarrow> Inr (m, h\<lparr> best_solution := s' \<rparr>))"

definition setSolution :: "Horse \<Rightarrow> Solution \<Rightarrow> error + Horse" where
  "setSolution h sol =
     (case updateFitness (h\<lparr> solution := sol \<rparr>) of
        Inl e \<Rightarrow> Inl e
      | Inr h1 \<Rightarrow>
         (case updateBest h1 of
            (True, h2) \<Rightarrow> Inr (h2\<lparr> stagnation_counter := 0 \<rparr>)
          | (False, h2) \<Rightarrow> Inr (h2\<lparr> stagnation_counter := stagnation_counter h2 + 1 \<rparr>)))"

definition Horse_initializeRandom :: "Horse \<Rightarrow> Rng \<Rightarrow> error + (Horse \<times> Rng)" where
  "Horse_initializeRandom h g =
     (case Solution_initializeRandom (solution h) g of
        (s', g') \<Rightarrow>
         (case updateFitness (h\<lparr> solution := s' \<rparr>) of
            Inl e \<Rightarrow> Inl e
          | Inr h1 \<Rightarrow> Inr (h1\<lparr> best_solution := solution h1, best_fitness := fitness h1 \<rparr>, g')))"

definition Horse_initializeGreedy :: "Horse \<Rightarrow> error + Horse" where
  "Horse_initializeGreedy h =
     (case updateFitness (h\<lparr> solution := Solution_initializeGreedy (solution h) \<rparr>) of
        Inl e \<Rightarrow> Inl e
      | Inr h1 \<Rightarrow> Inr (h1\<lparr> best_solution := solution h1, best_fitness := fitness h1 \<rparr>))"

text \<open>\<^verbatim>\<open>Horse::Horse(instance)\<close>: two identity solutions, then \<^verbatim>\<open>initializeRandom()\<close>.\<close>

definition Horse_new :: "ProblemInstance \<Rightarrow> Rng \<Rightarrow> error + (Horse \<times> Rng)" where
  "Horse_new inst g =
     (case Solution_new inst of
        Inl e \<Rightarrow> Inl e
      | Inr s \<Rightarrow>
          Horse_initializeRandom
            \<lparr> solution = s, best_solution = s, fitness = 0, best_fitness = 0, age = 0,
              grazing_ability = 0.8, stamina = 1, is_leader = False, stagnation_counter = 0 \<rparr> g)"

subsubsection \<open>The agent's local searches\<close>

fun apply2OptSearch_inner :: "int \<Rightarrow> nat \<Rightarrow> nat list \<Rightarrow> Solution \<Rightarrow> error + (bool \<times> Solution)" where
  "apply2OptSearch_inner current_makespan i [] s = Inr (False, s)"
| "apply2OptSearch_inner current_makespan i (j # js) s =
     (case swapJobs s (int i) (int j) of
        Inl e \<Rightarrow> Inl e
      | Inr s1 \<Rightarrow>
         (case getMakespan s1 of
            Inl e \<Rightarrow> Inl e
          | Inr (new_makespan, s2) \<Rightarrow>
              if new_makespan < current_makespan then Inr (True, s2)
              else (case swapJobs s2 (int i) (int j) of
                      Inl e \<Rightarrow> Inl e
                    | Inr s3 \<Rightarrow> apply2OptSearch_inner current_makespan i js s3)))"

fun apply2OptSearch_outer :: "int \<Rightarrow> nat \<Rightarrow> nat list \<Rightarrow> Solution \<Rightarrow> error + (bool \<times> Solution)" where
  "apply2OptSearch_outer current_makespan n [] s = Inr (False, s)"
| "apply2OptSearch_outer current_makespan n (i # is) s =
     (case apply2OptSearch_inner current_makespan i [Suc i..<n] s of
        Inl e \<Rightarrow> Inl e
      | Inr (improved, s') \<Rightarrow>
          if improved then Inr (True, s') else apply2OptSearch_outer current_makespan n is s')"

definition apply2OptSearch :: "Horse \<Rightarrow> error + (bool \<times> Horse)" where
  "apply2OptSearch h =
     (case getMakespan (solution h) of
        Inl e \<Rightarrow> Inl e
      | Inr (current_makespan, s0) \<Rightarrow>
         (let n = length (job_sequence s0) in
          case apply2OptSearch_outer current_makespan n [0..<n - 1] s0 of
            Inl e \<Rightarrow> Inl e
          | Inr (improved, s') \<Rightarrow> Inr (improved, h\<lparr> solution := s' \<rparr>)))"

text \<open>\<^verbatim>\<open>Horse::applyInsertionSearch\<close> evaluates each candidate on a fresh \<^verbatim>\<open>Solution\<close>.\<close>

fun Horse_insertion_inner :: "ProblemInstance \<Rightarrow> int \<Rightarrow> int list \<Rightarrow> nat \<Rightarrow> nat list \<Rightarrow> error + Solution option" where
  "Horse_insertion_inner inst current_makespan job_seq i [] = Inr None"
| "Horse_insertion_inner inst current_makespan job_seq i (j # js) =
     (if i = j then Horse_insertion_inner inst current_makespan job_seq i js
      else
        case Solution_of (insert_at (erase_at job_seq i) (insertion_target i j) (job_seq ! i)) inst of
          Inl e \<Rightarrow> Inl e
        | Inr temp_solution \<Rightarrow>
           (case getMakespan temp_solution of
              Inl e \<Rightarrow> Inl e
            | Inr (new_makespan, temp_solution') \<Rightarrow>
                if new_makespan < current_makespan then Inr (Some temp_solution')
                else Horse_insertion_inner inst current_makespan job_seq i js))"

fun Horse_insertion_outer :: "ProblemInstance \<Rightarrow> int \<Rightarrow> int list \<Rightarrow> nat list \<Rightarrow> error + Solution option" where
  "Horse_insertion_outer inst current_makespan job_seq [] = Inr None"
| "Horse_insertion_outer inst current_makespan job_seq (i # is) =
     (case Horse_insertion_inner inst current_makespan job_seq i [0..<length job_seq] of
        Inl e \<Rightarrow> Inl e
      | Inr (Some found) \<Rightarrow> Inr (Some found)
      | Inr None \<Rightarrow> Horse_insertion_outer inst current_makespan job_seq is)"

definition Horse_applyInsertionSearch :: "Horse \<Rightarrow> error + (bool \<times> Horse)" where
  "Horse_applyInsertionSearch h =
     (case getMakespan (solution h) of
        Inl e \<Rightarrow> Inl e
      | Inr (current_makespan, s0) \<Rightarrow>
         (case Horse_insertion_outer (the_instance s0) current_makespan (job_sequence s0)
                 [0..<length (job_sequence s0)] of
            Inl e \<Rightarrow> Inl e
          | Inr (Some found) \<Rightarrow> Inr (True, h\<lparr> solution := found \<rparr>)
          | Inr None \<Rightarrow> Inr (False, h\<lparr> solution := s0 \<rparr>)))"

subsubsection \<open>Behaviours\<close>

definition graze :: "Horse \<Rightarrow> real \<Rightarrow> Rng \<Rightarrow> error + (bool \<times> Horse \<times> Rng)" where
  "graze h intensity g =
     (if intensity \<le> 0 \<or> intensity > 1 then Inl InvalidArgument
      else
        let effective_intensity = intensity * grazing_ability h * stamina h in
        case randDouble g of (d1, g1) \<Rightarrow>
        case (if d1 < effective_intensity then apply2OptSearch h else Inr (False, h)) of
          Inl e \<Rightarrow> Inl e
        | Inr (improved1, h1) \<Rightarrow>
           (case randDouble g1 of (d2, g2) \<Rightarrow>
            case (if d2 < effective_intensity * 0.7 then Horse_applyInsertionSearch h1
                  else Inr (False, h1)) of
              Inl e \<Rightarrow> Inl e
            | Inr (improved2, h2) \<Rightarrow>
                if improved1 \<or> improved2 then
                  (case updateFitness h2 of
                     Inl e \<Rightarrow> Inl e
                   | Inr h3 \<Rightarrow> Inr (True, snd (updateBest h3), g2))
                else Inr (False, h2, g2)))"

text \<open>\<^verbatim>\<open>std::max(1, static_cast<int>(exploration_rate * solution_.getNumJobs() * 0.5))\<close>:
  two binary64 products, from left to right, then the truncation.\<close>

definition roam_num_moves :: "real \<Rightarrow> int \<Rightarrow> int" where
  "roam_num_moves exploration_rate n =
     max 1 (b64_trunc (b64_mult (b64_mult (b64_of_real exploration_rate) (b64_of_int n))
                         (b64_of_real 0.5)))"

text \<open>One pass of the loop of \<^verbatim>\<open>Horse::roam\<close>: a coin, then a swap or an insert neighbour.\<close>

definition roam_move :: "Solution \<Rightarrow> Rng \<Rightarrow> error + (Solution \<times> Rng)" where
  "roam_move new_solution g =
     (case randBool 0.5 g of
        Inl e \<Rightarrow> Inl e
      | Inr (True, g1) \<Rightarrow> createSwapNeighbor new_solution g1
      | Inr (False, g1) \<Rightarrow> createInsertNeighbor new_solution g1)"

fun roam_loop :: "nat \<Rightarrow> Solution \<Rightarrow> Rng \<Rightarrow> error + (Solution \<times> Rng)" where
  "roam_loop 0 new_solution g = Inr (new_solution, g)"
| "roam_loop (Suc k) new_solution g =
     (case roam_move new_solution g of
        Inl e \<Rightarrow> Inl e
      | Inr (s', g') \<Rightarrow> roam_loop k s' g')"

text \<open>\<^verbatim>\<open>Horse::roam\<close> is a member function that is not \<^verbatim>\<open>const\<close>; it works on a copy of
  \<^verbatim>\<open>solution_\<close> and assigns to no member, so the horse comes back as it went in.\<close>

definition roam :: "Horse \<Rightarrow> real \<Rightarrow> Rng \<Rightarrow> error + (Solution \<times> Horse \<times> Rng)" where
  "roam h exploration_rate g =
     (if exploration_rate < 0 \<or> exploration_rate > 1 then Inl InvalidArgument
      else case roam_loop (nat (roam_num_moves exploration_rate (getNumJobs (solution h))))
                  (solution h) g of
             Inl e \<Rightarrow> Inl e
           | Inr (new_solution, g') \<Rightarrow> Inr (new_solution, h, g'))"

definition mutate :: "Horse \<Rightarrow> real \<Rightarrow> Rng \<Rightarrow> error + (Horse \<times> Rng)" where
  "mutate h mutation_rate g =
     (if mutation_rate < 0 \<or> mutation_rate > 1 then Inl InvalidArgument
      else case randDouble g of (d, g1) \<Rightarrow>
        if d < mutation_rate then
          (case randBool 0.5 g1 of
             Inl e \<Rightarrow> Inl e
           | Inr (coin, g2) \<Rightarrow>
              (case (if coin then createSwapNeighbor (solution h) g2
                     else createInsertNeighbor (solution h) g2) of
                 Inl e \<Rightarrow> Inl e
               | Inr (s', g3) \<Rightarrow>
                  (case updateFitness (h\<lparr> solution := s' \<rparr>) of
                     Inl e \<Rightarrow> Inl e
                   | Inr h1 \<Rightarrow> Inr (snd (updateBest h1), g3))))
        else Inr (h, g1))"

definition increaseAge :: "Horse \<Rightarrow> Horse" where
  "increaseAge h =
     h\<lparr> age := age h + 1,
        grazing_ability := max 0.1 (grazing_ability h * 0.995),
        stamina := max 0.1 (stamina h * 0.998) \<rparr>"

definition rejuvenate :: "Horse \<Rightarrow> Rng \<Rightarrow> Horse \<times> Rng" where
  "rejuvenate h g =
     (case randDouble g of (d1, g1) \<Rightarrow>
      case randDouble g1 of (d2, g2) \<Rightarrow>
        (h\<lparr> age := 0, grazing_ability := 0.8 + d1 * 0.2, stamina := 0.8 + d2 * 0.2,
            stagnation_counter := 0 \<rparr>, g2))"

definition isStagnant :: "Horse \<Rightarrow> int \<Rightarrow> bool" where
  "isStagnant h max_stagnation = (stagnation_counter h \<ge> max_stagnation)"

subsubsection \<open>Crossover\<close>

fun ox_copy_segment :: "Solution \<Rightarrow> int \<Rightarrow> int list \<Rightarrow> int list \<times> bool list \<Rightarrow> error + (int list \<times> bool list)" where
  "ox_copy_segment parent1 sz [] st = Inr st"
| "ox_copy_segment parent1 sz (i # is) (offspring, used) =
     (case getJobAt parent1 i of
        Inl e \<Rightarrow> Inl e
      | Inr job \<Rightarrow>
          if job \<ge> 0 \<and> job < sz
          then ox_copy_segment parent1 sz is (offspring[nat i := job], used[nat job := True])
          else ox_copy_segment parent1 sz is (offspring, used))"

text \<open>\<^verbatim>\<open>while (current_pos < size && offspring[current_pos] != -1) current_pos++\<close>.\<close>

function ox_next_empty :: "nat \<Rightarrow> int list \<Rightarrow> nat \<Rightarrow> nat" where
  "ox_next_empty sz offspring current_pos =
     (if current_pos < sz \<and> offspring ! current_pos \<noteq> -1
      then ox_next_empty sz offspring (Suc current_pos)
      else current_pos)"
  by pat_completeness auto
termination
  by (relation "measure (\<lambda>(sz, offspring, current_pos). sz - current_pos)") auto

declare ox_next_empty.simps [simp del]

fun ox_fill :: "Solution \<Rightarrow> nat \<Rightarrow> nat list \<Rightarrow> int list \<times> bool list \<times> nat \<Rightarrow> error + (int list \<times> bool list \<times> nat)" where
  "ox_fill parent2 sz [] st = Inr st"
| "ox_fill parent2 sz (i # is) (offspring, used, current_pos) =
     (if \<not> current_pos < sz then Inr (offspring, used, current_pos)
      else
        case getJobAt parent2 (int i) of
          Inl e \<Rightarrow> Inl e
        | Inr job \<Rightarrow>
            if job \<ge> 0 \<and> job < int sz \<and> \<not> used ! nat job
            then ox_fill parent2 sz is
                   (offspring[current_pos := job], used[nat job := True],
                    ox_next_empty sz (offspring[current_pos := job]) (Suc current_pos))
            else ox_fill parent2 sz is (offspring, used, current_pos))"

fun ox_place :: "nat \<Rightarrow> nat list \<Rightarrow> int list \<times> bool list \<Rightarrow> int list \<times> bool list" where
  "ox_place i [] st = st"
| "ox_place i (j # js) (offspring, used) =
     (if offspring ! j = -1 then (offspring[j := int i], used[i := True])
      else ox_place i js (offspring, used))"

fun ox_gaps :: "nat \<Rightarrow> nat list \<Rightarrow> int list \<times> bool list \<Rightarrow> int list \<times> bool list" where
  "ox_gaps sz [] st = st"
| "ox_gaps sz (i # is) (offspring, used) =
     (if \<not> used ! i then ox_gaps sz is (ox_place i [0..<sz] (offspring, used))
      else ox_gaps sz is (offspring, used))"

definition orderCrossover :: "Solution \<Rightarrow> Solution \<Rightarrow> Rng \<Rightarrow> error + (Solution \<times> Rng)" where
  "orderCrossover parent1 parent2 g =
     (let sz = getNumJobs parent1 in
      case randInt 0 (sz - 1) g of
        Inl e \<Rightarrow> Inl e
      | Inr (r1, g1) \<Rightarrow>
         (case randInt 0 (sz - 1) g1 of
            Inl e \<Rightarrow> Inl e
          | Inr (r2, g2) \<Rightarrow>
             (let point1 = (if r1 > r2 then r2 else r1);
                  point2 = (if r1 > r2 then r1 else r2)
              in case ox_copy_segment parent1 sz [point1..point2]
                        (replicate (nat sz) (-1), replicate (nat sz) False) of
                   Inl e \<Rightarrow> Inl e
                 | Inr (offspring1, used1) \<Rightarrow>
                    (case ox_fill parent2 (nat sz) [0..<nat sz]
                            (offspring1, used1, ox_next_empty (nat sz) offspring1 0) of
                       Inl e \<Rightarrow> Inl e
                     | Inr (offspring2, used2, _) \<Rightarrow>
                        (case Solution_of (fst (ox_gaps (nat sz) [0..<nat sz] (offspring2, used2)))
                                (the_instance parent1) of
                           Inl e \<Rightarrow> Inl e
                         | Inr child \<Rightarrow> Inr (child, g2))))))"

fun pmx_swap_first :: "int \<Rightarrow> nat \<Rightarrow> nat list \<Rightarrow> int list \<Rightarrow> int list" where
  "pmx_swap_first job pos2 [] offspring = offspring"
| "pmx_swap_first job pos2 (j # js) offspring =
     (if offspring ! j = job then swap_at offspring j pos2
      else pmx_swap_first job pos2 js offspring)"

fun pmx_loop :: "Solution \<Rightarrow> int \<Rightarrow> nat \<Rightarrow> int list \<Rightarrow> Rng \<Rightarrow> error + (int list \<times> Rng)" where
  "pmx_loop parent2 sz 0 offspring g = Inr (offspring, g)"
| "pmx_loop parent2 sz (Suc k) offspring g =
     (case randInt 0 (sz - 1) g of
        Inl e \<Rightarrow> Inl e
      | Inr (pos1, g1) \<Rightarrow>
         (case randInt 0 (sz - 1) g1 of
            Inl e \<Rightarrow> Inl e
          | Inr (pos2, g2) \<Rightarrow>
             (case getJobAt parent2 pos1 of
                Inl e \<Rightarrow> Inl e
              | Inr job_from_parent2 \<Rightarrow>
                  pmx_loop parent2 sz k
                    (pmx_swap_first job_from_parent2 (nat pos2) [0..<nat sz] offspring) g2)))"

definition partiallyMappedCrossover :: "Solution \<Rightarrow> Solution \<Rightarrow> Rng \<Rightarrow> error + (Solution \<times> Rng)" where
  "partiallyMappedCrossover parent1 parent2 g =
     (let sz = getNumJobs parent1 in
      case randInt 1 (min 3 (sz div 2)) g of
        Inl e \<Rightarrow> Inl e
      | Inr (num_swaps, g1) \<Rightarrow>
         (case pmx_loop parent2 sz (nat num_swaps) (job_sequence parent1) g1 of
            Inl e \<Rightarrow> Inl e
          | Inr (offspring, g2) \<Rightarrow>
             (case Solution_of offspring (the_instance parent1) of
                Inl e \<Rightarrow> Inl e
              | Inr child \<Rightarrow> Inr (child, g2))))"

definition followLeader :: "Horse \<Rightarrow> Horse \<Rightarrow> real \<Rightarrow> Rng \<Rightarrow> error + (Solution \<times> Rng)" where
  "followLeader h leader_horse following_rate g =
     (if following_rate < 0 \<or> following_rate > 1 then Inl InvalidArgument
      else case randDouble g of (d, g1) \<Rightarrow>
        if d < following_rate then orderCrossover (solution h) (best_solution leader_horse) g1
        else partiallyMappedCrossover (solution h) (best_solution leader_horse) g1)"

definition mateWith :: "Horse \<Rightarrow> Horse \<Rightarrow> real \<Rightarrow> Rng \<Rightarrow> error + (Solution \<times> Rng)" where
  "mateWith h mate crossover_rate g =
     (if crossover_rate < 0 \<or> crossover_rate > 1 then Inl InvalidArgument
      else case randDouble g of (d, g1) \<Rightarrow>
        if d < crossover_rate then
          (case randBool 0.5 g1 of
             Inl e \<Rightarrow> Inl e
           | Inr (True, g2) \<Rightarrow> orderCrossover (best_solution h) (best_solution mate) g2
           | Inr (False, g2) \<Rightarrow>
               partiallyMappedCrossover (best_solution h) (best_solution mate) g2)
        else
          (case randBool 0.5 g1 of
             Inl e \<Rightarrow> Inl e
           | Inr (coin, g2) \<Rightarrow> Inr (if coin then best_solution h else best_solution mate, g2)))"

subsection \<open>HorseHerd\<close>

record HorseHerd =
  horses :: "Horse list"
  herd_instance :: ProblemInstance
  leader :: Horse
  herd_size :: int
  diversity :: real
  generation :: int

text \<open>\<^verbatim>\<open>HorseHerd::HorseHerd\<close>: the member \<^verbatim>\<open>leader_(instance)\<close> is built (a random horse)
  before the body checks the size.\<close>

definition HorseHerd_new :: "ProblemInstance \<Rightarrow> int \<Rightarrow> Rng \<Rightarrow> error + (HorseHerd \<times> Rng)" where
  "HorseHerd_new inst size_arg g =
     (case Horse_new inst g of
        Inl e \<Rightarrow> Inl e
      | Inr (l, g') \<Rightarrow>
          if size_arg \<le> 0 then Inl InvalidArgument
          else Inr (\<lparr> horses = [], herd_instance = inst, leader = l, herd_size = size_arg,
                      diversity = 0, generation = 0 \<rparr>, g'))"

text \<open>\<^verbatim>\<open>std::max_element\<close> with the comparison of \<^verbatim>\<open>getBestFitness\<close>: the first horse that
  no other horse exceeds.\<close>

definition max_element_index :: "Horse list \<Rightarrow> nat" where
  "max_element_index hs =
     fold (\<lambda>i largest. if best_fitness (hs ! largest) < best_fitness (hs ! i) then i else largest)
       [1..<length hs] 0"

definition getBestHorse :: "HorseHerd \<Rightarrow> error + Horse" where
  "getBestHorse herd =
     (if horses herd = [] then Inl RuntimeError
      else Inr (horses herd ! max_element_index (horses herd)))"

definition getBestSolution :: "HorseHerd \<Rightarrow> error + Solution" where
  "getBestSolution herd =
     (case getBestHorse herd of Inl e \<Rightarrow> Inl e | Inr h \<Rightarrow> Inr (best_solution h))"

text \<open>The second loop of \<^verbatim>\<open>updateLeader\<close>: mark the first horse whose best makespan is
  the leader's. Both \<^verbatim>\<open>getBestMakespan\<close> calls may fill a cache, and so does the one in
  the argument of the log line for a new leader.\<close>

fun mark_leader :: "Horse list \<Rightarrow> Horse \<Rightarrow> error + (Horse list \<times> Horse)" where
  "mark_leader [] l = Inr ([], l)"
| "mark_leader (h # hs) l =
     (case getBestMakespan h of
        Inl e \<Rightarrow> Inl e
      | Inr (mh, h') \<Rightarrow>
         (case getBestMakespan l of
            Inl e \<Rightarrow> Inl e
          | Inr (ml, l') \<Rightarrow>
              if mh = ml then Inr (h'\<lparr> is_leader := True \<rparr> # hs, l')
              else (case mark_leader hs l' of
                      Inl e \<Rightarrow> Inl e
                    | Inr (hs', l'') \<Rightarrow> Inr (h' # hs', l''))))"

definition updateLeader :: "HorseHerd \<Rightarrow> error + (bool \<times> HorseHerd)" where
  "updateLeader herd =
     (if horses herd = [] then Inr (False, herd)
      else
        let best_horse = horses herd ! max_element_index (horses herd);
            leader_changed = (best_fitness best_horse > best_fitness (leader herd))
        in case (if leader_changed then
                   (case getBestMakespan (best_horse\<lparr> is_leader := True \<rparr>) of
                      Inl e \<Rightarrow> Inl e
                    | Inr (_, l) \<Rightarrow> Inr l)
                 else Inr (leader herd)) of
             Inl e \<Rightarrow> Inl e
           | Inr leader1 \<Rightarrow>
              (case mark_leader (map (\<lambda>h. h\<lparr> is_leader := False \<rparr>) (horses herd)) leader1 of
                 Inl e \<Rightarrow> Inl e
               | Inr (hs', leader2) \<Rightarrow>
                   Inr (leader_changed, herd\<lparr> horses := hs', leader := leader2 \<rparr>)))"

definition calculateDistance :: "Solution \<Rightarrow> Solution \<Rightarrow> real" where
  "calculateDistance sol1 sol2 = real_of_int (distanceTo sol1 sol2) / real_of_int (getNumJobs sol1)"

definition pair_distances :: "Horse list \<Rightarrow> real list" where
  "pair_distances hs =
     concat (map (\<lambda>i. map (\<lambda>j. calculateDistance (solution (hs ! i)) (solution (hs ! j)))
                         [Suc i..<length hs])
                 [0..<length hs])"

definition calculateDiversity :: "HorseHerd \<Rightarrow> HorseHerd" where
  "calculateDiversity herd =
     (if length (horses herd) < 2 then herd\<lparr> diversity := 0 \<rparr>
      else
        let ds = pair_distances (horses herd) in
        herd\<lparr> diversity := (if length ds > 0 then sum_list ds / real (length ds) else 0) \<rparr>)"

definition createRandomHorse :: "ProblemInstance \<Rightarrow> Rng \<Rightarrow> error + (Horse \<times> Rng)" where
  "createRandomHorse inst g =
     (case Horse_new inst g of
        Inl e \<Rightarrow> Inl e
      | Inr (h, g') \<Rightarrow> Horse_initializeRandom h g')"

subsubsection \<open>Initialisation\<close>

fun init_random_horses :: "ProblemInstance \<Rightarrow> nat \<Rightarrow> Rng \<Rightarrow> error + (Horse list \<times> Rng)" where
  "init_random_horses inst 0 g = Inr ([], g)"
| "init_random_horses inst (Suc k) g =
     (case createRandomHorse inst g of
        Inl e \<Rightarrow> Inl e
      | Inr (h, g') \<Rightarrow>
         (case init_random_horses inst k g' of
            Inl e \<Rightarrow> Inl e
          | Inr (hs, g'') \<Rightarrow> Inr (h # hs, g'')))"

fun init_greedy_horses :: "ProblemInstance \<Rightarrow> nat list \<Rightarrow> Rng \<Rightarrow> error + (Horse list \<times> Rng)" where
  "init_greedy_horses inst [] g = Inr ([], g)"
| "init_greedy_horses inst (i # is) g =
     (case Horse_new inst g of
        Inl e \<Rightarrow> Inl e
      | Inr (h0, g0) \<Rightarrow>
         (case Horse_initializeGreedy h0 of
            Inl e \<Rightarrow> Inl e
          | Inr h1 \<Rightarrow>
             (case (if i > 0 then mutate h1 (0.1 * real i) g0 else Inr (h1, g0)) of
                Inl e \<Rightarrow> Inl e
              | Inr (h2, g1) \<Rightarrow>
                 (case init_greedy_horses inst is g1 of
                    Inl e \<Rightarrow> Inl e
                  | Inr (hs, g2) \<Rightarrow> Inr (h2 # hs, g2)))))"

text \<open>The argument of the closing log line, \<^verbatim>\<open>getBestHorse().getBestMakespan()\<close>, is
  evaluated whatever the log level: it fails on an empty herd and fills a cache.\<close>

definition log_best_makespan :: "HorseHerd \<Rightarrow> error + HorseHerd" where
  "log_best_makespan herd =
     (if horses herd = [] then Inl RuntimeError
      else case getBestMakespan (horses herd ! max_element_index (horses herd)) of
             Inl e \<Rightarrow> Inl e
           | Inr (_, h') \<Rightarrow>
               Inr (herd\<lparr> horses := (horses herd)[max_element_index (horses herd) := h'] \<rparr>))"

definition HorseHerd_initialize :: "HorseHerd \<Rightarrow> real \<Rightarrow> Rng \<Rightarrow> error + (HorseHerd \<times> Rng)" where
  "HorseHerd_initialize herd random_ratio g =
     (if random_ratio < 0 \<or> random_ratio > 1 then Inl InvalidArgument
      else
        let num_random = b64_trunc (b64_mult (b64_of_int (herd_size herd))
                                            (b64_of_real random_ratio));
            num_greedy = herd_size herd - num_random
        in case init_random_horses (herd_instance herd) (nat num_random) g of
             Inl e \<Rightarrow> Inl e
           | Inr (rs, g1) \<Rightarrow>
              (case init_greedy_horses (herd_instance herd) [0..<nat num_greedy] g1 of
                 Inl e \<Rightarrow> Inl e
               | Inr (gs, g2) \<Rightarrow>
                  (case updateLeader (herd\<lparr> horses := rs @ gs \<rparr>) of
                     Inl e \<Rightarrow> Inl e
                   | Inr (_, herd1) \<Rightarrow>
                      (case log_best_makespan (calculateDiversity herd1) of
                         Inl e \<Rightarrow> Inl e
                       | Inr herd2 \<Rightarrow> Inr (herd2, g2)))))"

subsubsection \<open>The population-wide behaviour passes\<close>

fun grazing_loop :: "real \<Rightarrow> Horse list \<Rightarrow> Rng \<Rightarrow> error + (Horse list \<times> int \<times> Rng)" where
  "grazing_loop intensity [] g = Inr ([], 0, g)"
| "grazing_loop intensity (h # hs) g =
     (case graze h intensity g of
        Inl e \<Rightarrow> Inl e
      | Inr (improved, h', g') \<Rightarrow>
         (case grazing_loop intensity hs g' of
            Inl e \<Rightarrow> Inl e
          | Inr (hs', improved_count, g'') \<Rightarrow>
              Inr (h' # hs', (if improved then 1 else 0) + improved_count, g'')))"

text \<open>The tail shared by the passes: \<^verbatim>\<open>if (count > 0) updateLeader(); return count;\<close>.\<close>

definition refresh_leader_if :: "int \<Rightarrow> HorseHerd \<Rightarrow> Rng \<Rightarrow> error + (int \<times> HorseHerd \<times> Rng)" where
  "refresh_leader_if cnt herd g =
     (if cnt > 0 then
        (case updateLeader herd of
           Inl e \<Rightarrow> Inl e
         | Inr (_, herd') \<Rightarrow> Inr (cnt, herd', g))
      else Inr (cnt, herd, g))"

definition performGrazing :: "HorseHerd \<Rightarrow> real \<Rightarrow> Rng \<Rightarrow> error + (int \<times> HorseHerd \<times> Rng)" where
  "performGrazing herd intensity g =
     (case grazing_loop intensity (horses herd) g of
        Inl e \<Rightarrow> Inl e
      | Inr (hs', improved_count, g') \<Rightarrow>
          refresh_leader_if improved_count (herd\<lparr> horses := hs' \<rparr>) g')"

text \<open>The acceptance test of roaming, following and mating:
  \<^verbatim>\<open>if (new_solution.getMakespan() < horse.getSolution().getMakespan()) horse.setSolution(new_solution)\<close>.\<close>

definition accept_if_better :: "Horse \<Rightarrow> Solution \<Rightarrow> error + (bool \<times> Horse)" where
  "accept_if_better h new_solution =
     (case getMakespan new_solution of
        Inl e \<Rightarrow> Inl e
      | Inr (m_new, new_solution') \<Rightarrow>
         (case Horse_getMakespan h of
            Inl e \<Rightarrow> Inl e
          | Inr (m_old, h') \<Rightarrow>
              if m_new < m_old then
                (case setSolution h' new_solution' of
                   Inl e \<Rightarrow> Inl e
                 | Inr h'' \<Rightarrow> Inr (True, h''))
              else Inr (False, h')))"

fun roaming_loop :: "real \<Rightarrow> real \<Rightarrow> Horse list \<Rightarrow> Rng \<Rightarrow> error + (Horse list \<times> int \<times> Rng)" where
  "roaming_loop roaming_rate exploration_rate [] g = Inr ([], 0, g)"
| "roaming_loop roaming_rate exploration_rate (h # hs) g =
     (case randDouble g of (d, g1) \<Rightarrow>
      case (if d < roaming_rate then
              (case roam h exploration_rate g1 of
                 Inl e \<Rightarrow> Inl e
               | Inr (new_solution, h1, g2) \<Rightarrow>
                  (case accept_if_better h1 new_solution of
                     Inl e \<Rightarrow> Inl e
                   | Inr (accepted, h') \<Rightarrow> Inr (accepted, h', g2)))
            else Inr (False, h, g1)) of
        Inl e \<Rightarrow> Inl e
      | Inr (accepted, h', g') \<Rightarrow>
         (case roaming_loop roaming_rate exploration_rate hs g' of
            Inl e \<Rightarrow> Inl e
          | Inr (hs', roamed_count, g'') \<Rightarrow>
              Inr (h' # hs', (if accepted then 1 else 0) + roamed_count, g'')))"

definition performRoaming :: "HorseHerd \<Rightarrow> real \<Rightarrow> real \<Rightarrow> Rng \<Rightarrow> error + (int \<times> HorseHerd \<times> Rng)" where
  "performRoaming herd roaming_rate exploration_rate g =
     (case roaming_loop roaming_rate exploration_rate (horses herd) g of
        Inl e \<Rightarrow> Inl e
      | Inr (hs', roamed_count, g') \<Rightarrow>
          refresh_leader_if roamed_count (herd\<lparr> horses := hs' \<rparr>) g')"

fun following_loop :: "Horse \<Rightarrow> real \<Rightarrow> Horse list \<Rightarrow> Rng \<Rightarrow> error + (Horse list \<times> int \<times> Rng)" where
  "following_loop l following_rate [] g = Inr ([], 0, g)"
| "following_loop l following_rate (h # hs) g =
     (case (if \<not> is_leader h then
              (case followLeader h l following_rate g of
                 Inl e \<Rightarrow> Inl e
               | Inr (new_solution, g1) \<Rightarrow>
                  (case accept_if_better h new_solution of
                     Inl e \<Rightarrow> Inl e
                   | Inr (accepted, h') \<Rightarrow> Inr (accepted, h', g1)))
            else Inr (False, h, g)) of
        Inl e \<Rightarrow> Inl e
      | Inr (accepted, h', g') \<Rightarrow>
         (case following_loop l following_rate hs g' of
            Inl e \<Rightarrow> Inl e
          | Inr (hs', followed_count, g'') \<Rightarrow>
              Inr (h' # hs', (if accepted then 1 else 0) + followed_count, g'')))"

definition performFollowing :: "HorseHerd \<Rightarrow> real \<Rightarrow> Rng \<Rightarrow> error + (int \<times> HorseHerd \<times> Rng)" where
  "performFollowing herd following_rate g =
     (case following_loop (leader herd) following_rate (horses herd) g of
        Inl e \<Rightarrow> Inl e
      | Inr (hs', followed_count, g') \<Rightarrow>
          refresh_leader_if followed_count (herd\<lparr> horses := hs' \<rparr>) g')"

fun mutation_loop :: "real \<Rightarrow> Horse list \<Rightarrow> Rng \<Rightarrow> error + (Horse list \<times> int \<times> Rng)" where
  "mutation_loop mutation_rate [] g = Inr ([], 0, g)"
| "mutation_loop mutation_rate (h # hs) g =
     (case Horse_getMakespan h of
        Inl e \<Rightarrow> Inl e
      | Inr (old_makespan, h1) \<Rightarrow>
         (case mutate h1 mutation_rate g of
            Inl e \<Rightarrow> Inl e
          | Inr (h2, g1) \<Rightarrow>
             (case Horse_getMakespan h2 of
                Inl e \<Rightarrow> Inl e
              | Inr (new_makespan, h3) \<Rightarrow>
                 (case mutation_loop mutation_rate hs g1 of
                    Inl e \<Rightarrow> Inl e
                  | Inr (hs', mutated_count, g2) \<Rightarrow>
                      Inr (h3 # hs',
                           (if new_makespan < old_makespan then 1 else 0) + mutated_count, g2)))))"

definition performMutation :: "HorseHerd \<Rightarrow> real \<Rightarrow> Rng \<Rightarrow> error + (int \<times> HorseHerd \<times> Rng)" where
  "performMutation herd mutation_rate g =
     (case mutation_loop mutation_rate (horses herd) g of
        Inl e \<Rightarrow> Inl e
      | Inr (hs', mutated_count, g') \<Rightarrow>
          refresh_leader_if mutated_count (herd\<lparr> horses := hs' \<rparr>) g')"

definition ageHorses :: "HorseHerd \<Rightarrow> HorseHerd" where
  "ageHorses herd = herd\<lparr> horses := map increaseAge (horses herd) \<rparr>"

subsubsection \<open>Selection, mating, replacement, rejuvenation, elite\<close>

text \<open>\<^verbatim>\<open>tournamentSelection\<close> reads \<^verbatim>\<open>candidates[0]\<close>; on an empty herd that read is
  undefined in the source (the model gives an error there; no caller reaches it).\<close>

definition tournamentSelection :: "Horse list \<Rightarrow> int \<Rightarrow> Rng \<Rightarrow> error + (int \<times> Rng)" where
  "tournamentSelection hs tournament_size g =
     (case sample (int (length hs)) (min tournament_size (int (length hs))) g of
        Inl e \<Rightarrow> Inl e
      | Inr (candidates, g') \<Rightarrow>
         (case candidates of
            [] \<Rightarrow> Inl RuntimeError
          | c0 # _ \<Rightarrow>
              Inr (fst (fold (\<lambda>idx (best_idx, best_fit).
                                if best_fitness (hs ! nat idx) > best_fit
                                then (idx, best_fitness (hs ! nat idx))
                                else (best_idx, best_fit))
                             candidates (c0, best_fitness (hs ! nat c0))), g')))"

text \<open>\<^verbatim>\<open>selectForReplacement\<close>: indices in ascending order of (best fitness, index).\<close>

definition selectForReplacement :: "Horse list \<Rightarrow> int \<Rightarrow> int list" where
  "selectForReplacement hs num_horses =
     take (nat (min num_horses (int (length hs))))
       (map snd (sort (map (\<lambda>i. (best_fitness (hs ! i), int i)) [0..<length hs])))"

text \<open>
  \<^verbatim>\<open>while (parent2_idx == parent1_idx && horses_.size() > 1) parent2_idx = tournamentSelection();\<close>
  Nothing bounds this loop (with two or three horses the tournament sees the whole herd
  and returns its best horse every time), so it is a partial function: \<open>None\<close> is a run
  that does not return.
\<close>

partial_function (option) reselect_parent2 ::
    "Horse list \<Rightarrow> int \<Rightarrow> int \<Rightarrow> Rng \<Rightarrow> (error + (int \<times> Rng)) option" where
  "reselect_parent2 hs parent1_idx parent2_idx g =
     (if parent2_idx = parent1_idx \<and> length hs > 1 then
        (case tournamentSelection hs 3 g of
           Inl e \<Rightarrow> Some (Inl e)
         | Inr (p2, g') \<Rightarrow> reselect_parent2 hs parent1_idx p2 g')
      else Some (Inr (parent2_idx, g)))"

declare reselect_parent2.simps [code]

text \<open>One mating event: two parents, one offspring, and the weakest horse's acceptance test.\<close>

definition mating_event :: "real \<Rightarrow> Horse list \<Rightarrow> Rng \<Rightarrow> (error + (bool \<times> Horse list \<times> Rng)) option" where
  "mating_event crossover_rate hs g =
     (case tournamentSelection hs 3 g of
        Inl e \<Rightarrow> Some (Inl e)
      | Inr (parent1_idx, g1) \<Rightarrow>
         (case tournamentSelection hs 3 g1 of
            Inl e \<Rightarrow> Some (Inl e)
          | Inr (p2, g2) \<Rightarrow>
             (case reselect_parent2 hs parent1_idx p2 g2 of
                None \<Rightarrow> None
              | Some (Inl e) \<Rightarrow> Some (Inl e)
              | Some (Inr (parent2_idx, g3)) \<Rightarrow>
                 (case mateWith (hs ! nat parent1_idx) (hs ! nat parent2_idx) crossover_rate g3 of
                    Inl e \<Rightarrow> Some (Inl e)
                  | Inr (offspring, g4) \<Rightarrow>
                     (case selectForReplacement hs 1 of
                        [] \<Rightarrow> Some (Inr (False, hs, g4))
                      | weak_idx # _ \<Rightarrow>
                         (case accept_if_better (hs ! nat weak_idx) offspring of
                            Inl e \<Rightarrow> Some (Inl e)
                          | Inr (accepted, hw) \<Rightarrow>
                              Some (Inr (accepted, hs[nat weak_idx := hw], g4))))))))"

fun mating_loop :: "nat \<Rightarrow> real \<Rightarrow> Horse list \<Rightarrow> int \<Rightarrow> Rng \<Rightarrow> (error + (Horse list \<times> int \<times> Rng)) option" where
  "mating_loop 0 crossover_rate hs offspring_count g = Some (Inr (hs, offspring_count, g))"
| "mating_loop (Suc k) crossover_rate hs offspring_count g =
     (case mating_event crossover_rate hs g of
        None \<Rightarrow> None
      | Some (Inl e) \<Rightarrow> Some (Inl e)
      | Some (Inr (accepted, hs', g')) \<Rightarrow>
          mating_loop k crossover_rate hs'
            (if accepted then offspring_count + 1 else offspring_count) g')"

definition performMating :: "HorseHerd \<Rightarrow> real \<Rightarrow> real \<Rightarrow> Rng \<Rightarrow> (error + (int \<times> HorseHerd \<times> Rng)) option" where
  "performMating herd mating_rate crossover_rate g =
     (let num_matings =
            b64_trunc (b64_div (b64_mult (b64_of_int (int (length (horses herd))))
                                  (b64_of_real mating_rate))
                         (b64_of_int 2)) in
      case mating_loop (nat num_matings) crossover_rate (horses herd) 0 g of
        None \<Rightarrow> None
      | Some (Inl e) \<Rightarrow> Some (Inl e)
      | Some (Inr (hs', offspring_count, g')) \<Rightarrow>
          Some (refresh_leader_if offspring_count (herd\<lparr> horses := hs' \<rparr>) g'))"

fun replace_loop :: "ProblemInstance \<Rightarrow> int list \<Rightarrow> Horse list \<Rightarrow> Rng \<Rightarrow> error + (Horse list \<times> Rng)" where
  "replace_loop inst [] hs g = Inr (hs, g)"
| "replace_loop inst (idx # rest) hs g =
     (case createRandomHorse inst g of
        Inl e \<Rightarrow> Inl e
      | Inr (h, g') \<Rightarrow> replace_loop inst rest (hs[nat idx := h]) g')"

definition replaceWeakHorses :: "HorseHerd \<Rightarrow> real \<Rightarrow> Rng \<Rightarrow> error + (int \<times> HorseHerd \<times> Rng)" where
  "replaceWeakHorses herd replacement_rate g =
     (let num_replacements =
            b64_trunc (b64_mult (b64_of_int (int (length (horses herd))))
                         (b64_of_real replacement_rate)) in
      if num_replacements = 0 then Inr (0, herd, g)
      else
        case replace_loop (herd_instance herd)
               (selectForReplacement (horses herd) num_replacements) (horses herd) g of
          Inl e \<Rightarrow> Inl e
        | Inr (hs', g') \<Rightarrow>
           (case updateLeader (herd\<lparr> horses := hs' \<rparr>) of
              Inl e \<Rightarrow> Inl e
            | Inr (_, herd') \<Rightarrow> Inr (num_replacements, herd', g')))"

fun rejuvenate_loop :: "int \<Rightarrow> Horse list \<Rightarrow> Rng \<Rightarrow> error + (Horse list \<times> int \<times> Rng)" where
  "rejuvenate_loop max_stagnation [] g = Inr ([], 0, g)"
| "rejuvenate_loop max_stagnation (h # hs) g =
     (case (if isStagnant h max_stagnation then
              (case rejuvenate h g of (h1, g1) \<Rightarrow>
               case Horse_initializeRandom h1 g1 of
                 Inl e \<Rightarrow> Inl e
               | Inr (h2, g2) \<Rightarrow> Inr (True, h2, g2))
            else Inr (False, h, g)) of
        Inl e \<Rightarrow> Inl e
      | Inr (done, h', g') \<Rightarrow>
         (case rejuvenate_loop max_stagnation hs g' of
            Inl e \<Rightarrow> Inl e
          | Inr (hs', rejuvenated_count, g'') \<Rightarrow>
              Inr (h' # hs', (if done then 1 else 0) + rejuvenated_count, g'')))"

definition rejuvenateStagnantHorses :: "HorseHerd \<Rightarrow> int \<Rightarrow> Rng \<Rightarrow> error + (int \<times> HorseHerd \<times> Rng)" where
  "rejuvenateStagnantHorses herd max_stagnation g =
     (case rejuvenate_loop max_stagnation (horses herd) g of
        Inl e \<Rightarrow> Inl e
      | Inr (hs', rejuvenated_count, g') \<Rightarrow>
          refresh_leader_if rejuvenated_count (herd\<lparr> horses := hs' \<rparr>) g')"

text \<open>\<^verbatim>\<open>sortByFitness\<close> is \<^verbatim>\<open>std::sort\<close> with \<^verbatim>\<open>std::greater<Horse>\<close>, which compares
  the current fitness. The order among horses of equal fitness is the library's choice;
  the model keeps their order.\<close>

definition sortByFitness :: "HorseHerd \<Rightarrow> HorseHerd" where
  "sortByFitness herd = herd\<lparr> horses := sort_key (\<lambda>h. - fitness h) (horses herd) \<rparr>"

fun elite_loop :: "nat list \<Rightarrow> Horse list \<Rightarrow> int \<Rightarrow> Rng \<Rightarrow> error + (Horse list \<times> int \<times> Rng)" where
  "elite_loop [] hs improved_count g = Inr (hs, improved_count, g)"
| "elite_loop (i # is) hs improved_count g =
     (case getBestMakespan (hs ! i) of
        Inl e \<Rightarrow> Inl e
      | Inr (old_makespan, h1) \<Rightarrow>
         (case graze h1 0.9 g of
            Inl e \<Rightarrow> Inl e
          | Inr (_, h2, g1) \<Rightarrow>
             (case getBestMakespan h2 of
                Inl e \<Rightarrow> Inl e
              | Inr (new_makespan, h3) \<Rightarrow>
                  elite_loop is (hs[i := h3])
                    (if new_makespan < old_makespan then improved_count + 1 else improved_count)
                    g1)))"

definition improveElite :: "HorseHerd \<Rightarrow> int \<Rightarrow> Rng \<Rightarrow> error + (int \<times> HorseHerd \<times> Rng)" where
  "improveElite herd num_horses g =
     (let herd1 = sortByFitness herd;
          elite_count = min num_horses (int (length (horses herd1)))
      in case elite_loop [0..<nat elite_count] (horses herd1) 0 g of
           Inl e \<Rightarrow> Inl e
         | Inr (hs', improved_count, g') \<Rightarrow>
             refresh_leader_if improved_count (herd1\<lparr> horses := hs' \<rparr>) g')"

definition getAverageFitness :: "HorseHerd \<Rightarrow> real" where
  "getAverageFitness herd =
     (if horses herd = [] then 0
      else sum_list (map best_fitness (horses herd)) / real (length (horses herd)))"

definition nextGeneration :: "HorseHerd \<Rightarrow> HorseHerd" where
  "nextGeneration herd = herd\<lparr> generation := generation herd + 1 \<rparr>"

subsection \<open>HHOA\<close>

record HHOAParameters =
  population_size :: int
  max_iterations :: int
  grazing_intensity :: real
  roaming_rate :: real
  exploration_rate :: real
  following_rate :: real
  mating_rate :: real
  crossover_rate :: real
  mutation_rate :: real
  replacement_rate :: real
  max_stagnation :: int
  elite_improvement_freq :: int
  elite_count :: int
  diversity_threshold :: real
  adaptive_parameters :: bool
  termination_patience :: int

text \<open>The default member initialisers of \<^verbatim>\<open>struct HHOAParameters\<close>.\<close>

definition default_parameters :: HHOAParameters where
  "default_parameters =
     \<lparr> population_size = 30, max_iterations = 1000, grazing_intensity = 0.5,
       roaming_rate = 0.3, exploration_rate = 0.3, following_rate = 0.7, mating_rate = 0.4,
       crossover_rate = 0.8, mutation_rate = 0.1, replacement_rate = 0.1, max_stagnation = 20,
       elite_improvement_freq = 10, elite_count = 3, diversity_threshold = 0.01,
       adaptive_parameters = True, termination_patience = 100 \<rparr>"

definition HHOAParameters_isValid :: "HHOAParameters \<Rightarrow> bool" where
  "HHOAParameters_isValid p =
     (population_size p > 0 \<and> max_iterations p > 0 \<and>
      grazing_intensity p \<ge> 0 \<and> grazing_intensity p \<le> 1 \<and>
      roaming_rate p \<ge> 0 \<and> roaming_rate p \<le> 1 \<and>
      exploration_rate p \<ge> 0 \<and> exploration_rate p \<le> 1 \<and>
      following_rate p \<ge> 0 \<and> following_rate p \<le> 1 \<and>
      mating_rate p \<ge> 0 \<and> mating_rate p \<le> 1 \<and>
      crossover_rate p \<ge> 0 \<and> crossover_rate p \<le> 1 \<and>
      mutation_rate p \<ge> 0 \<and> mutation_rate p \<le> 1 \<and>
      replacement_rate p \<ge> 0 \<and> replacement_rate p \<le> 1 \<and>
      max_stagnation p > 0 \<and> elite_count p \<ge> 0 \<and>
      termination_patience p > 0)"

record HHOAStatistics =
  iterations_executed :: int
  total_improvements :: int
  leader_changes :: int
  rejuvenations :: int
  replacements :: int
  best_makespan_history :: "int list"
  diversity_history :: "real list"
  average_fitness_history :: "real list"

definition empty_statistics :: HHOAStatistics where
  "empty_statistics =
     \<lparr> iterations_executed = 0, total_improvements = 0, leader_changes = 0, rejuvenations = 0,
       replacements = 0, best_makespan_history = [], diversity_history = [],
       average_fitness_history = [] \<rparr>"

text \<open>The optimiser. The iteration callback only observes, so it is left out; the
  termination callback is a field, \<open>None\<close> when no callback is set.\<close>

record HHOA =
  hhoa_instance :: ProblemInstance
  parameters :: HHOAParameters
  statistics :: HHOAStatistics
  herd :: HorseHerd
  termination_callback :: "(int \<Rightarrow> Solution \<Rightarrow> bool) option"

text \<open>\<^verbatim>\<open>HHOA::HHOA(instance, parameters)\<close>. The instance is held by a shared pointer; the
  null pointer is \<open>None\<close>.\<close>

definition HHOA_new :: "ProblemInstance option \<Rightarrow> HHOAParameters \<Rightarrow> Rng \<Rightarrow> error + (HHOA \<times> Rng)" where
  "HHOA_new instance_ptr params g =
     (case instance_ptr of
        None \<Rightarrow> Inl InvalidArgument
      | Some inst \<Rightarrow>
          if \<not> ProblemInstance_isValid inst then Inl InvalidArgument
          else if \<not> HHOAParameters_isValid params then Inl InvalidArgument
          else case HorseHerd_new inst (population_size params) g of
                 Inl e \<Rightarrow> Inl e
               | Inr (hd0, g') \<Rightarrow>
                   Inr (\<lparr> hhoa_instance = inst, parameters = params,
                           statistics = empty_statistics, herd = hd0,
                           termination_callback = None \<rparr>, g'))"

definition setTerminationCallback :: "HHOA \<Rightarrow> (int \<Rightarrow> Solution \<Rightarrow> bool) \<Rightarrow> HHOA" where
  "setTerminationCallback hhoa callback = hhoa\<lparr> termination_callback := Some callback \<rparr>"

definition HHOA_getBestSolution :: "HHOA \<Rightarrow> error + Solution" where
  "HHOA_getBestSolution hhoa = getBestSolution (herd hhoa)"

text \<open>\<^verbatim>\<open>herd_->getBestSolution().getMakespan()\<close>: the makespan of a temporary copy.\<close>

definition herd_best_makespan :: "HorseHerd \<Rightarrow> error + int" where
  "herd_best_makespan hd0 =
     (case getBestSolution hd0 of
        Inl e \<Rightarrow> Inl e
      | Inr s \<Rightarrow> (case getMakespan s of Inl e \<Rightarrow> Inl e | Inr (m, _) \<Rightarrow> Inr m))"

definition shouldTerminate :: "HHOA \<Rightarrow> int \<Rightarrow> int \<Rightarrow> error + bool" where
  "shouldTerminate hhoa iteration stagnation_count =
     (case termination_callback hhoa of
        Some callback \<Rightarrow>
          (case getBestSolution (herd hhoa) of
             Inl e \<Rightarrow> Inl e
           | Inr best \<Rightarrow> Inr (callback iteration best))
      | None \<Rightarrow>
          if iteration \<ge> max_iterations (parameters hhoa) - 1 then Inr True
          else if stagnation_count \<ge> termination_patience (parameters hhoa) then Inr True
          else Inr False)"

definition updateAdaptiveParameters :: "HHOAParameters \<Rightarrow> int \<Rightarrow> real \<Rightarrow> int \<Rightarrow> HHOAParameters" where
  "updateAdaptiveParameters p iteration diversity_now stagnation_count =
     (let progress = real_of_int iteration / real_of_int (max_iterations p);
          p1 = (if progress < 0.3 then
                  p\<lparr> roaming_rate := min 0.5 (roaming_rate p * 1.1),
                     exploration_rate := min 0.5 (exploration_rate p * 1.1) \<rparr>
                else if progress > 0.7 then
                  p\<lparr> grazing_intensity := min 0.9 (grazing_intensity p * 1.05),
                     following_rate := min 0.9 (following_rate p * 1.05) \<rparr>
                else p);
          p2 = (if diversity_now < diversity_threshold p1 then
                  p1\<lparr> mutation_rate := min 0.3 (mutation_rate p1 * 1.2),
                      replacement_rate := min 0.2 (replacement_rate p1 * 1.1) \<rparr>
                else if diversity_now > 0.1 then
                  p1\<lparr> grazing_intensity := min 0.9 (grazing_intensity p1 * 1.1) \<rparr>
                else p1)
      in if stagnation_count > max_stagnation p2 div 2
         then p2\<lparr> mutation_rate := min 0.3 (mutation_rate p2 * 1.15) \<rparr>
         else p2)"

definition applyDiversityPreservation :: "HHOA \<Rightarrow> real \<Rightarrow> Rng \<Rightarrow> error + (bool \<times> HHOA \<times> Rng)" where
  "applyDiversityPreservation hhoa diversity_now g =
     (if diversity_now \<ge> diversity_threshold (parameters hhoa) then Inr (False, hhoa, g)
      else
        let num_replacements =
              max 1 (b64_trunc (b64_mult (b64_of_int (population_size (parameters hhoa)))
                                  (b64_of_real 0.2)))
        in case replaceWeakHorses (herd hhoa)
                  (b64_value (b64_div (b64_of_int num_replacements)
                                (b64_of_int (population_size (parameters hhoa))))) g of
             Inl e \<Rightarrow> Inl e
           | Inr (_, herd', g') \<Rightarrow>
               Inr (True,
                    hhoa\<lparr> herd := herd',
                          parameters := (parameters hhoa)
                            \<lparr> mutation_rate := min 0.4 (mutation_rate (parameters hhoa) * 1.5) \<rparr> \<rparr>,
                    g'))"

definition recordStatistics :: "HHOA \<Rightarrow> error + HHOA" where
  "recordStatistics hhoa =
     (case herd_best_makespan (herd hhoa) of
        Inl e \<Rightarrow> Inl e
      | Inr m \<Rightarrow>
          Inr (hhoa\<lparr> statistics := (statistics hhoa)
                 \<lparr> best_makespan_history := best_makespan_history (statistics hhoa) @ [m],
                   diversity_history := diversity_history (statistics hhoa) @ [diversity (herd hhoa)],
                   average_fitness_history :=
                     average_fitness_history (statistics hhoa) @ [getAverageFitness (herd hhoa)] \<rparr> \<rparr>))"

definition HHOA_initialize :: "HHOA \<Rightarrow> Rng \<Rightarrow> error + (HHOA \<times> Rng)" where
  "HHOA_initialize hhoa g =
     (case HorseHerd_initialize (herd hhoa) 0.8 g of
        Inl e \<Rightarrow> Inl e
      | Inr (herd', g') \<Rightarrow>
         (case herd_best_makespan herd' of
            Inl e \<Rightarrow> Inl e
          | Inr _ \<Rightarrow> Inr (hhoa\<lparr> statistics := empty_statistics, herd := herd' \<rparr>, g')))"

text \<open>
  \<^verbatim>\<open>HHOA::executeIteration\<close>: the phases in the order of the source. It returns the
  flag \<^verbatim>\<open>improved\<close>; \<open>None\<close> is a mating phase that does not return.
\<close>

definition behaviour_phases :: "HHOA \<Rightarrow> Rng \<Rightarrow> (error + (bool \<times> HHOA \<times> Rng)) option" where
  "behaviour_phases hhoa g =
     (case performGrazing (herd hhoa) (grazing_intensity (parameters hhoa)) g of
        Inl e \<Rightarrow> Some (Inl e)
      | Inr (grazing_improvements, herd1, g1) \<Rightarrow>
     (case performRoaming herd1 (roaming_rate (parameters hhoa))
             (exploration_rate (parameters hhoa)) g1 of
        Inl e \<Rightarrow> Some (Inl e)
      | Inr (roaming_improvements, herd2, g2) \<Rightarrow>
     (case performFollowing herd2 (following_rate (parameters hhoa)) g2 of
        Inl e \<Rightarrow> Some (Inl e)
      | Inr (following_improvements, herd3, g3) \<Rightarrow>
     (case performMating herd3 (mating_rate (parameters hhoa))
             (crossover_rate (parameters hhoa)) g3 of
        None \<Rightarrow> None
      | Some (Inl e) \<Rightarrow> Some (Inl e)
      | Some (Inr (mating_improvements, herd4, g4)) \<Rightarrow>
     (case performMutation herd4 (mutation_rate (parameters hhoa)) g4 of
        Inl e \<Rightarrow> Some (Inl e)
      | Inr (mutation_improvements, herd5, g5) \<Rightarrow>
          Some (Inr (grazing_improvements > 0 \<or> roaming_improvements > 0 \<or>
                     following_improvements > 0 \<or> mating_improvements > 0 \<or>
                     mutation_improvements > 0,
                     hhoa\<lparr> herd := ageHorses herd5 \<rparr>, g5)))))))"

definition phase_replace :: "HHOA \<Rightarrow> int \<Rightarrow> Rng \<Rightarrow> error + (HHOA \<times> Rng)" where
  "phase_replace hhoa iteration g =
     (if iteration mod 10 = 0 then
        (case replaceWeakHorses (herd hhoa) (replacement_rate (parameters hhoa)) g of
           Inl e \<Rightarrow> Inl e
         | Inr (n, herd', g') \<Rightarrow>
             Inr (hhoa\<lparr> herd := herd',
                        statistics := (statistics hhoa)
                          \<lparr> replacements := replacements (statistics hhoa) + n \<rparr> \<rparr>, g'))
      else Inr (hhoa, g))"

definition phase_rejuvenate :: "HHOA \<Rightarrow> int \<Rightarrow> Rng \<Rightarrow> error + (HHOA \<times> Rng)" where
  "phase_rejuvenate hhoa iteration g =
     (if max_stagnation (parameters hhoa) = 0 then Inl DivisionByZero
      else if iteration mod max_stagnation (parameters hhoa) = 0 then
        (case rejuvenateStagnantHorses (herd hhoa) (max_stagnation (parameters hhoa)) g of
           Inl e \<Rightarrow> Inl e
         | Inr (n, herd', g') \<Rightarrow>
             Inr (hhoa\<lparr> herd := herd',
                        statistics := (statistics hhoa)
                          \<lparr> rejuvenations := rejuvenations (statistics hhoa) + n \<rparr> \<rparr>, g'))
      else Inr (hhoa, g))"

definition phase_elite :: "HHOA \<Rightarrow> int \<Rightarrow> Rng \<Rightarrow> error + (bool \<times> HHOA \<times> Rng)" where
  "phase_elite hhoa iteration g =
     (if elite_improvement_freq (parameters hhoa) = 0 then Inl DivisionByZero
      else if iteration mod elite_improvement_freq (parameters hhoa) = 0 then
        (case improveElite (herd hhoa) (elite_count (parameters hhoa)) g of
           Inl e \<Rightarrow> Inl e
         | Inr (elite_improvements, herd', g') \<Rightarrow>
             Inr (elite_improvements > 0, hhoa\<lparr> herd := herd' \<rparr>, g'))
      else Inr (False, hhoa, g))"

definition phase_leader_diversity :: "HHOA \<Rightarrow> Rng \<Rightarrow> error + (HHOA \<times> Rng)" where
  "phase_leader_diversity hhoa g =
     (case updateLeader (herd hhoa) of
        Inl e \<Rightarrow> Inl e
      | Inr (leader_changed, herd1) \<Rightarrow>
         (let hhoa1 = hhoa\<lparr> herd := calculateDiversity herd1,
                            statistics := (if leader_changed
                               then (statistics hhoa)
                                      \<lparr> leader_changes := leader_changes (statistics hhoa) + 1 \<rparr>
                               else statistics hhoa) \<rparr>
          in if diversity (herd hhoa1) < diversity_threshold (parameters hhoa1) then
               (case applyDiversityPreservation hhoa1 (diversity (herd hhoa1)) g of
                  Inl e \<Rightarrow> Inl e
                | Inr (_, hhoa2, g') \<Rightarrow> Inr (hhoa2, g'))
             else Inr (hhoa1, g)))"

definition executeIteration :: "HHOA \<Rightarrow> int \<Rightarrow> Rng \<Rightarrow> (error + (bool \<times> HHOA \<times> Rng)) option" where
  "executeIteration hhoa iteration g =
     (case behaviour_phases hhoa g of
        None \<Rightarrow> None
      | Some (Inl e) \<Rightarrow> Some (Inl e)
      | Some (Inr (improved1, hhoa1, g1)) \<Rightarrow>
     (case phase_replace hhoa1 iteration g1 of
        Inl e \<Rightarrow> Some (Inl e)
      | Inr (hhoa2, g2) \<Rightarrow>
     (case phase_rejuvenate hhoa2 iteration g2 of
        Inl e \<Rightarrow> Some (Inl e)
      | Inr (hhoa3, g3) \<Rightarrow>
     (case phase_elite hhoa3 iteration g3 of
        Inl e \<Rightarrow> Some (Inl e)
      | Inr (improved2, hhoa4, g4) \<Rightarrow>
     (case phase_leader_diversity hhoa4 g4 of
        Inl e \<Rightarrow> Some (Inl e)
      | Inr (hhoa5, g5) \<Rightarrow> Some (Inr (improved1 \<or> improved2, hhoa5, g5)))))))"

text \<open>
  The loop of \<^verbatim>\<open>HHOA::optimize(int iterations)\<close>, over the iteration indices still to
  run, with the locals \<^verbatim>\<open>stagnation_count\<close> and \<^verbatim>\<open>best_makespan\<close>. A \<^verbatim>\<open>break\<close> leaves
  \<^verbatim>\<open>iterations_executed\<close> and the generation counter as they are.
\<close>

fun optimize_loop :: "int list \<Rightarrow> HHOA \<Rightarrow> int \<Rightarrow> int \<Rightarrow> Rng \<Rightarrow> (error + (HHOA \<times> Rng)) option" where
  "optimize_loop [] hhoa stagnation_count best_makespan g = Some (Inr (hhoa, g))"
| "optimize_loop (iteration # rest) hhoa stagnation_count best_makespan g =
     (case executeIteration hhoa iteration g of
        None \<Rightarrow> None
      | Some (Inl e) \<Rightarrow> Some (Inl e)
      | Some (Inr (improved, hhoa1, g1)) \<Rightarrow>
     (case recordStatistics hhoa1 of
        Inl e \<Rightarrow> Some (Inl e)
      | Inr hhoa2 \<Rightarrow>
     (case herd_best_makespan (herd hhoa2) of
        Inl e \<Rightarrow> Some (Inl e)
      | Inr current_makespan \<Rightarrow>
         (let better = (current_makespan < best_makespan);
              best_makespan' = (if better then current_makespan else best_makespan);
              stagnation_count' = (if better then 0 else stagnation_count + 1);
              hhoa3 = (if better
                       then hhoa2\<lparr> statistics := (statistics hhoa2)
                              \<lparr> total_improvements := total_improvements (statistics hhoa2) + 1 \<rparr> \<rparr>
                       else hhoa2);
              hhoa4 = (if adaptive_parameters (parameters hhoa3)
                       then hhoa3\<lparr> parameters :=
                              updateAdaptiveParameters (parameters hhoa3) iteration
                                (diversity (herd hhoa3)) stagnation_count' \<rparr>
                       else hhoa3)
          in case shouldTerminate hhoa4 iteration stagnation_count' of
               Inl e \<Rightarrow> Some (Inl e)
             | Inr True \<Rightarrow> Some (Inr (hhoa4, g1))
             | Inr False \<Rightarrow>
                 optimize_loop rest
                   (hhoa4\<lparr> herd := nextGeneration (herd hhoa4),
                           statistics := (statistics hhoa4)
                             \<lparr> iterations_executed := iteration + 1 \<rparr> \<rparr>)
                   stagnation_count' best_makespan' g1))))"

definition optimize :: "HHOA \<Rightarrow> int \<Rightarrow> Rng \<Rightarrow> (error + (Solution \<times> HHOA \<times> Rng)) option" where
  "optimize hhoa iterations g =
     (case HHOA_initialize hhoa g of
        Inl e \<Rightarrow> Some (Inl e)
      | Inr (hhoa0, g0) \<Rightarrow>
         (case herd_best_makespan (herd hhoa0) of
            Inl e \<Rightarrow> Some (Inl e)
          | Inr best_makespan \<Rightarrow>
             (case optimize_loop [0..iterations - 1] hhoa0 0 best_makespan g0 of
                None \<Rightarrow> None
              | Some (Inl e) \<Rightarrow> Some (Inl e)
              | Some (Inr (hhoa1, g1)) \<Rightarrow>
                 (case HHOA_getBestSolution hhoa1 of
                    Inl e \<Rightarrow> Some (Inl e)
                  | Inr best \<Rightarrow> Some (Inr (best, hhoa1, g1))))))"

text \<open>\<^verbatim>\<open>HHOA::optimize()\<close> runs \<^verbatim>\<open>max_iterations\<close> iterations.\<close>

definition optimize_default :: "HHOA \<Rightarrow> Rng \<Rightarrow> (error + (Solution \<times> HHOA \<times> Rng)) option" where
  "optimize_default hhoa g = optimize hhoa (max_iterations (parameters hhoa)) g"

subsection \<open>Entry points and worked examples\<close>

text \<open>What \<^verbatim>\<open>main\<close> and the test driver do: construct the optimiser, then run it.\<close>

definition initialized_hhoa :: "ProblemInstance \<Rightarrow> HHOAParameters \<Rightarrow> Rng \<Rightarrow> error + (HHOA \<times> Rng)" where
  "initialized_hhoa inst params g =
     (case HHOA_new (Some inst) params g of
        Inl e \<Rightarrow> Inl e
      | Inr (hhoa, g') \<Rightarrow> HHOA_initialize hhoa g')"

definition run_optimizer :: "ProblemInstance \<Rightarrow> HHOAParameters \<Rightarrow> Rng \<Rightarrow> (error + (Solution \<times> HHOA \<times> Rng)) option" where
  "run_optimizer inst params g =
     (case HHOA_new (Some inst) params g of
        Inl e \<Rightarrow> Some (Inl e)
      | Inr (hhoa, g') \<Rightarrow> optimize_default hhoa g')"

text \<open>Observations of a run: the job sequence returned and the tape left over; the job
  sequences of the population after initialisation; the iteration count after the loop.\<close>

definition run_outcome :: "ProblemInstance \<Rightarrow> HHOAParameters \<Rightarrow> Rng \<Rightarrow> (error + (int list \<times> Rng)) option" where
  "run_outcome inst params g =
     (case run_optimizer inst params g of
        None \<Rightarrow> None
      | Some (Inl e) \<Rightarrow> Some (Inl e)
      | Some (Inr (best, hhoa, g')) \<Rightarrow> Some (Inr (job_sequence best, g')))"

definition initial_population :: "ProblemInstance \<Rightarrow> HHOAParameters \<Rightarrow> Rng \<Rightarrow> error + int list list" where
  "initial_population inst params g =
     (case initialized_hhoa inst params g of
        Inl e \<Rightarrow> Inl e
      | Inr (hhoa, g') \<Rightarrow> Inr (map (\<lambda>h. job_sequence (solution h)) (horses (herd hhoa))))"


text \<open>A herd of one horse holding the identity order of the worked example.\<close>

definition example_horse :: Horse where
  "example_horse =
     \<lparr> solution = example_identity, best_solution = example_identity, fitness = -26,
       best_fitness = -26, age = 0, grazing_ability = 0.8, stamina = 1, is_leader = False,
       stagnation_counter = 0 \<rparr>"

definition example_herd :: HorseHerd where
  "example_herd =
     \<lparr> horses = [example_horse], herd_instance = example_instance, leader = example_horse,
       herd_size = 1, diversity = 0, generation = 0 \<rparr>"




definition zero_grazing_parameters :: HHOAParameters where
  "zero_grazing_parameters = default_parameters\<lparr> population_size := 1, grazing_intensity := 0 \<rparr>"

definition zero_grazing_hhoa :: HHOA where
  "zero_grazing_hhoa =
     \<lparr> hhoa_instance = example_instance, parameters = zero_grazing_parameters,
       statistics = empty_statistics, herd = example_herd, termination_callback = None \<rparr>"



text \<open>A herd whose second horse (the reverse order, makespan 25) beats the stored leader
  (the identity order, makespan 26).\<close>

definition reversed_horse :: Horse where
  "reversed_horse =
     \<lparr> solution = example_identity\<lparr> job_sequence := [3, 2, 1, 0] \<rparr>,
       best_solution = example_identity\<lparr> job_sequence := [3, 2, 1, 0] \<rparr>, fitness = -25,
       best_fitness = -25, age = 0, grazing_ability = 0.8, stamina = 1, is_leader = False,
       stagnation_counter = 0 \<rparr>"

definition challenger_herd :: HorseHerd where
  "challenger_herd =
     \<lparr> horses = [example_horse, reversed_horse], herd_instance = example_instance,
       leader = example_horse, herd_size = 2, diversity = 0, generation = 0 \<rparr>"

definition example_hhoa :: HHOA where
  "example_hhoa =
     \<lparr> hhoa_instance = example_instance,
       parameters = default_parameters\<lparr> population_size := 1, max_iterations := 2 \<rparr>,
       statistics = empty_statistics, herd = example_herd, termination_callback = None \<rparr>"

definition updateLeader_outcome :: "HorseHerd \<Rightarrow> (bool \<times> real \<times> int list) option" where
  "updateLeader_outcome hrd =
     (case updateLeader hrd of
        Inl e \<Rightarrow> None
      | Inr (leader_changed, hrd') \<Rightarrow>
          Some (leader_changed, best_fitness (leader hrd'),
                job_sequence (best_solution (leader hrd'))))"

definition iteration_leader_fitness :: "HHOA \<Rightarrow> int \<Rightarrow> Rng \<Rightarrow> real option" where
  "iteration_leader_fitness hhoa iteration g =
     (case executeIteration hhoa iteration g of
        Some (Inr (_, hhoa', _)) \<Rightarrow> Some (best_fitness (leader (herd hhoa')))
      | _ \<Rightarrow> None)"

definition run_leader_fitness :: "HHOA \<Rightarrow> int \<Rightarrow> Rng \<Rightarrow> real option" where
  "run_leader_fitness hhoa iterations g =
     (case optimize hhoa iterations g of
        Some (Inr (_, hhoa', _)) \<Rightarrow> Some (best_fitness (leader (herd hhoa')))
      | _ \<Rightarrow> None)"

text \<open>
  A run that returns less than it had: two jobs on two machines, one horse, one
  iteration. The tape holds the ten draws of the run: the shuffle of the constructor's
  leader, the shuffle of the one (then greedy) horse, six gates that stay shut (grazing
  twice, roaming, mutation, elite grazing twice), and the two shuffles of the random horse
  that diversity preservation puts in the place of the only horse.
\<close>

definition two_job_instance :: ProblemInstance where
  "two_job_instance = ProblemInstance_of [[1, 10], [10, 1]]"

definition single_horse_parameters :: HHOAParameters where
  "single_horse_parameters = default_parameters\<lparr> population_size := 1, max_iterations := 1 \<rparr>"

definition regress_tape :: Rng where
  "regress_tape =
     [0, 0, 9007199254740991, 9007199254740991, 9007199254740991, 9007199254740991,
      9007199254740991, 9007199254740991, 0, 1]"

definition initial_best_makespan :: "ProblemInstance \<Rightarrow> HHOAParameters \<Rightarrow> Rng \<Rightarrow> error + int" where
  "initial_best_makespan inst params g =
     (case initialized_hhoa inst params g of
        Inl e \<Rightarrow> Inl e
      | Inr (hhoa, g') \<Rightarrow> herd_best_makespan (herd hhoa))"

text \<open>Of a run: the job sequence returned, its makespan, whether it is a valid solution,
  and the best job sequence and best fitness the leader holds at the end.\<close>

definition run_summary ::
    "ProblemInstance \<Rightarrow> HHOAParameters \<Rightarrow> Rng \<Rightarrow> (error + (int list \<times> int \<times> bool \<times> int list \<times> real)) option" where
  "run_summary inst params g =
     (case run_optimizer inst params g of
        None \<Rightarrow> None
      | Some (Inl e) \<Rightarrow> Some (Inl e)
      | Some (Inr (best, hhoa, g')) \<Rightarrow>
         (case getMakespan best of
            Inl e \<Rightarrow> Some (Inl e)
          | Inr (m, _) \<Rightarrow>
              Some (Inr (job_sequence best, m, Solution_isValid best,
                         job_sequence (best_solution (leader (herd hhoa))),
                         best_fitness (leader (herd hhoa))))))"




subsection \<open>Well-formed solutions and coherent caches\<close>

text \<open>
  The makespan of a job sequence as the evaluator computes it (the value of the
  flow-shop recurrence whenever that fits in an \<^verbatim>\<open>int\<close>); a solution is well formed when
  its instance is valid and its sequence has one in-range job index per job; its cache is
  coherent when a value marked as calculated is the makespan of the sequence.
\<close>

definition sequence_makespan :: "ProblemInstance \<Rightarrow> int list \<Rightarrow> int" where
  "sequence_makespan inst js = evaluator_C inst js (length js - 1) (nat (num_machines inst) - 1)"

definition true_makespan :: "Solution \<Rightarrow> int" where
  "true_makespan s = sequence_makespan (the_instance s) (job_sequence s)"

definition wf_solution :: "Solution \<Rightarrow> bool" where
  "wf_solution s =
     (ProblemInstance_isValid (the_instance s)
      \<and> int (length (job_sequence s)) = num_jobs (the_instance s)
      \<and> jobs_in_range (the_instance s) (job_sequence s))"

definition cache_ok :: "Solution \<Rightarrow> bool" where
  "cache_ok s = (makespan_calculated s \<longrightarrow> makespan s = true_makespan s)"






subsection \<open>First improvement, in the specification's words\<close>

text \<open>
  The position pairs in the order the searches scan them, the relocation of the job at
  one position to another, and the first pair whose move reduces the makespan. The last
  definition is one pass that keeps every improving swap and carries on.
\<close>

definition swap_pairs :: "nat \<Rightarrow> (nat \<times> nat) list" where
  "swap_pairs n = concat (map (\<lambda>i. map (Pair i) [Suc i..<n]) [0..<n - 1])"

definition insertion_pairs :: "nat \<Rightarrow> (nat \<times> nat) list" where
  "insertion_pairs n = concat (map (\<lambda>i. map (Pair i) (filter (\<lambda>j. i \<noteq> j) [0..<n])) [0..<n])"

definition relocate :: "int list \<Rightarrow> nat \<Rightarrow> nat \<Rightarrow> int list" where
  "relocate js i j = insert_at (erase_at js i) (insertion_target i j) (js ! i)"

definition first_improving_swap :: "ProblemInstance \<Rightarrow> int list \<Rightarrow> (nat \<times> nat) option" where
  "first_improving_swap inst js =
     find (\<lambda>(i, j). sequence_makespan inst (swap_at js i j) < sequence_makespan inst js)
       (swap_pairs (length js))"

definition first_improving_insertion :: "ProblemInstance \<Rightarrow> int list \<Rightarrow> (nat \<times> nat) option" where
  "first_improving_insertion inst js =
     find (\<lambda>(i, j). sequence_makespan inst (relocate js i j) < sequence_makespan inst js)
       (insertion_pairs (length js))"

definition keep_if_better :: "ProblemInstance \<Rightarrow> nat \<times> nat \<Rightarrow> int list \<Rightarrow> int list" where
  "keep_if_better inst p js =
     (if sequence_makespan inst (swap_at js (fst p) (snd p)) < sequence_makespan inst js
      then swap_at js (fst p) (snd p) else js)"

definition improving_swap_pass :: "ProblemInstance \<Rightarrow> int list \<Rightarrow> int list" where
  "improving_swap_pass inst js = fold (keep_if_better inst) (swap_pairs (length js)) js"

text \<open>Observations of the four searches: the flag and the job sequence afterwards.\<close>

definition apply2Opt_outcome :: "Solution \<Rightarrow> error + (bool \<times> int list)" where
  "apply2Opt_outcome s =
     (case apply2Opt s of Inl e \<Rightarrow> Inl e | Inr (b, s') \<Rightarrow> Inr (b, job_sequence s'))"

definition applyInsertionSearch_outcome :: "Solution \<Rightarrow> error + (bool \<times> int list)" where
  "applyInsertionSearch_outcome s =
     (case applyInsertionSearch s of Inl e \<Rightarrow> Inl e | Inr (b, s') \<Rightarrow> Inr (b, job_sequence s'))"

definition apply2OptSearch_outcome :: "Horse \<Rightarrow> error + (bool \<times> int list)" where
  "apply2OptSearch_outcome h =
     (case apply2OptSearch h of Inl e \<Rightarrow> Inl e | Inr (b, h') \<Rightarrow> Inr (b, job_sequence (solution h')))"

definition Horse_applyInsertionSearch_outcome :: "Horse \<Rightarrow> error + (bool \<times> int list)" where
  "Horse_applyInsertionSearch_outcome h =
     (case Horse_applyInsertionSearch h of
        Inl e \<Rightarrow> Inl e
      | Inr (b, h') \<Rightarrow> Inr (b, job_sequence (solution h')))"

text \<open>The order 3, 0, 1, 2 on the worked example (makespan 28), and a horse holding it.\<close>

definition rotated_solution :: Solution where
  "rotated_solution = example_identity\<lparr> job_sequence := [3, 0, 1, 2] \<rparr>"

definition rotated_horse :: Horse where
  "rotated_horse =
     \<lparr> solution = rotated_solution, best_solution = rotated_solution, fitness = -28,
       best_fitness = -28, age = 0, grazing_ability = 0.8, stamina = 1, is_leader = False,
       stagnation_counter = 0 \<rparr>"

subsection \<open>The invariant of order crossover, and one-job examples\<close>

text \<open>
  While \<^verbatim>\<open>orderCrossover\<close> fills \<^verbatim>\<open>offspring\<close>, the filled positions hold distinct
  in-range jobs, each marked in \<^verbatim>\<open>used\<close>, and every job marked in \<^verbatim>\<open>used\<close> sits at
  some position.
\<close>

definition ox_inv :: "nat \<Rightarrow> int list \<times> bool list \<Rightarrow> bool" where
  "ox_inv n st =
     (case st of (offspring, used) \<Rightarrow>
        length offspring = n \<and> length used = n
        \<and> (\<forall>p<n. offspring ! p \<noteq> -1 \<longrightarrow>
              0 \<le> offspring ! p \<and> offspring ! p < int n \<and> used ! nat (offspring ! p))
        \<and> (\<forall>p<n. \<forall>q<n. offspring ! p \<noteq> -1 \<longrightarrow> offspring ! p = offspring ! q \<longrightarrow> p = q)
        \<and> (\<forall>j<n. used ! j \<longrightarrow> (\<exists>p<n. offspring ! p = int j)))"

text \<open>An instance of one job on two machines, its only solution, and a horse holding it;
  and the reversed order on the worked example.\<close>

definition single_job_instance :: ProblemInstance where
  "single_job_instance = ProblemInstance_of [[3, 2]]"

definition single_job_solution :: Solution where
  "single_job_solution = \<lparr> job_sequence = [0], the_instance = single_job_instance,
     makespan = -1, makespan_calculated = False, completion_times = [] \<rparr>"

definition single_job_horse :: Horse where
  "single_job_horse =
     \<lparr> solution = single_job_solution, best_solution = single_job_solution, fitness = -5,
       best_fitness = -5, age = 0, grazing_ability = 0.8, stamina = 1, is_leader = False,
       stagnation_counter = 0 \<rparr>"

definition example_reversed :: Solution where
  "example_reversed = example_identity\<lparr> job_sequence := [3, 2, 1, 0] \<rparr>"

text \<open>One job whose completion time on the second machine exceeds \<^verbatim>\<open>INT_MAX\<close>.\<close>

definition overflow_instance :: ProblemInstance where
  "overflow_instance = ProblemInstance_of [[2147483647, 1]]"

definition overflow_solution :: Solution where
  "overflow_solution = \<lparr> job_sequence = [0], the_instance = overflow_instance,
     makespan = -1, makespan_calculated = False, completion_times = [] \<rparr>"

section \<open>Verification\<close>

subsection \<open>The evaluator and the flow-shop recurrence\<close>

lemma valid_ptime:
  assumes "ProblemInstance_isValid inst" "0 \<le> job" "job < num_jobs inst" "k < nat (num_machines inst)"
  shows "getProcessingTime inst job (int k) = Inr (processing_times inst ! nat job ! k)"
    and "0 \<le> processing_times inst ! nat job ! k"
proof -
  from assms show "getProcessingTime inst job (int k) = Inr (processing_times inst ! nat job ! k)"
    by (simp add: getProcessingTime_def)
  from assms have len: "int (length (processing_times inst)) = num_jobs inst"
    and all: "list_all (\<lambda>job_times. int (length job_times) = num_machines inst
                       \<and> list_all (\<lambda>time. \<not> time < 0) job_times) (processing_times inst)"
    by (auto simp: ProblemInstance_isValid_def split: if_splits)
  from len assms have j: "nat job < length (processing_times inst)" by linarith
  with all have row: "int (length (processing_times inst ! nat job)) = num_machines inst"
    and nn: "list_all (\<lambda>time. \<not> time < 0) (processing_times inst ! nat job)"
    by (auto simp: list_all_length)
  from row assms have "k < length (processing_times inst ! nat job)" by linarith
  with nn show "0 \<le> processing_times inst ! nat job ! k"
    by (auto simp: list_all_length not_less)
qed

lemma jobs_in_range_nth:
  "jobs_in_range inst js \<Longrightarrow> p < length js \<Longrightarrow> 0 \<le> js ! p \<and> js ! p < num_jobs inst"
  by (simp add: jobs_in_range_def list_all_length)






lemma set_cell_nth:
  "shape n m C \<Longrightarrow> p < n \<Longrightarrow> k < m \<Longrightarrow> p' < n \<Longrightarrow> k' < m \<Longrightarrow>
   set_cell C p k v ! p' ! k' = (if p' = p \<and> k' = k then v else C ! p' ! k')"
  by (auto simp: set_cell_def shape_def nth_list_update)

lemma set_cell_shape: "shape n m C \<Longrightarrow> shape n m (set_cell C p k v)"
proof -
  assume sh: "shape n m C"
  have "length (C[p := (C ! p)[k := v]] ! q) = m" if "q < n" for q
    using sh that by (cases "q = p") (simp_all add: shape_def)
  with sh show ?thesis by (simp add: set_cell_def shape_def)
qed

lemma calc_cell_step:
  assumes v: "ProblemInstance_isValid inst" and r: "jobs_in_range inst js"
    and p: "p < length js" and k: "k < m" and m: "m = nat (num_machines inst)"
    and sh: "shape (length js) m C" and f: "filled inst js m C p k"
  shows "\<exists>C'. calc_cell inst (js ! p) p C k = Inr C' \<and> shape (length js) m C'
            \<and> filled inst js m C' p (Suc k)"
proof -
  let ?pt = "processing_times inst ! nat (js ! p) ! k"
  from r p have job: "0 \<le> js ! p" "js ! p < num_jobs inst"
    using jobs_in_range_nth by blast+
  from k m have k': "k < nat (num_machines inst)" by simp
  have gp: "getProcessingTime inst (js ! p) (int k) = Inr ?pt"
    using valid_ptime(1) [OF v job k'] .
  define val where "val = (if p = 0 \<and> k = 0 then ?pt
               else if p = 0 then int_add (C ! p ! (k - 1)) ?pt
               else if k = 0 then int_add (C ! (p - 1) ! k) ?pt
               else int_add (max (C ! (p - 1) ! k) (C ! p ! (k - 1))) ?pt)"
  have cc: "calc_cell inst (js ! p) p C k = Inr (set_cell C p k val)"
    by (simp add: calc_cell_def gp val_def)
  have up: "p > 0 \<Longrightarrow> C ! (p - 1) ! k = evaluator_C inst js (p - 1) k"
    using f k by (simp add: filled_def)
  have left: "k > 0 \<Longrightarrow> C ! p ! (k - 1) = evaluator_C inst js p (k - 1)"
    using f k by (simp add: filled_def)
  have val: "val = evaluator_C inst js p k"
    using up left
    by (subst evaluator_C.simps) (auto simp: val_def)
  have "filled inst js m (set_cell C p k val) p (Suc k)"
    unfolding filled_def
  proof (intro allI impI)
    fix p' k'
    assume h: "k' < m \<and> (p' < p \<or> p' = p \<and> k' < Suc k)"
    then have p'n: "p' < length js" using p by auto
    have "set_cell C p k val ! p' ! k' = (if p' = p \<and> k' = k then val else C ! p' ! k')"
      using set_cell_nth [OF sh p k p'n] h by simp
    moreover have "\<not> (p' = p \<and> k' = k) \<Longrightarrow> C ! p' ! k' = evaluator_C inst js p' k'"
      using f h by (auto simp: filled_def less_Suc_eq)
    ultimately show "set_cell C p k val ! p' ! k' = evaluator_C inst js p' k'"
      using val by auto
  qed
  with cc set_cell_shape [OF sh] show ?thesis by blast
qed

lemma machine_loop_inv:
  assumes v: "ProblemInstance_isValid inst" and r: "jobs_in_range inst js"
    and p: "p < length js" and m: "m = nat (num_machines inst)"
  shows "k \<le> m \<Longrightarrow> shape (length js) m C \<Longrightarrow> filled inst js m C p k \<Longrightarrow>
         \<exists>C'. machine_loop inst (js ! p) p [k..<m] C = Inr C' \<and> shape (length js) m C'
            \<and> filled inst js m C' p m"
proof (induction "m - k" arbitrary: k C)
  case 0
  then have "k = m" by simp
  with 0 show ?case by simp
next
  case (Suc d)
  then have km: "k < m" by simp
  from calc_cell_step [OF v r p km m Suc.prems(2,3)]
  obtain C1 where c1: "calc_cell inst (js ! p) p C k = Inr C1" "shape (length js) m C1"
      "filled inst js m C1 p (Suc k)" by blast
  have "d = m - Suc k" using Suc.hyps(2) by simp
  from Suc.hyps(1) [OF this _ c1(2,3)] km
  obtain C' where "machine_loop inst (js ! p) p [Suc k..<m] C1 = Inr C'" "shape (length js) m C'"
      "filled inst js m C' p m" by auto
  with c1(1) km show ?case by (simp add: upt_conv_Cons)
qed

lemma filled_next: "filled inst js m C p m \<Longrightarrow> filled inst js m C (Suc p) 0"
  by (auto simp: filled_def less_Suc_eq)

lemma pos_loop_inv:
  assumes v: "ProblemInstance_isValid inst" and r: "jobs_in_range inst js"
    and m: "m = nat (num_machines inst)"
  shows "p \<le> length js \<Longrightarrow> shape (length js) m C \<Longrightarrow> filled inst js m C p 0 \<Longrightarrow>
         \<exists>C'. pos_loop inst js m [p..<length js] C = Inr C' \<and> shape (length js) m C'
            \<and> filled inst js m C' (length js) 0"
proof (induction "length js - p" arbitrary: p C)
  case 0
  then have "p = length js" by simp
  with 0 show ?case by simp
next
  case (Suc d)
  then have pn: "p < length js" by simp
  from machine_loop_inv [OF v r pn m _ Suc.prems(2,3)]
  obtain C1 where c1: "machine_loop inst (js ! p) p [0..<m] C = Inr C1" "shape (length js) m C1"
      "filled inst js m C1 p m" by blast
  have "d = length js - Suc p" using Suc.hyps(2) by simp
  from Suc.hyps(1) [OF this _ c1(2) filled_next [OF c1(3)]] pn
  obtain C' where "pos_loop inst js m [Suc p..<length js] C1 = Inr C'" "shape (length js) m C'"
      "filled inst js m C' (length js) 0" by auto
  with c1(1) pn show ?case by (simp add: upt_conv_Cons)
qed

text \<open>On every valid instance and in-range sequence the loops store the evaluator's
  values, whether or not a sum overflows.\<close>

lemma calculateMakespan_cells:
  assumes "ProblemInstance_isValid (the_instance s)"
    and "int (length (job_sequence s)) = num_jobs (the_instance s)"
    and "jobs_in_range (the_instance s) (job_sequence s)"
  shows "\<exists>s'. calculateMakespan s = Inr s'
           \<and> job_sequence s' = job_sequence s
           \<and> makespan_calculated s'
           \<and> (\<forall>p < length (job_sequence s). \<forall>k < nat (num_machines (the_instance s)).
                 completion_times s' ! p ! k = evaluator_C (the_instance s) (job_sequence s) p k)
           \<and> makespan s' = evaluator_C (the_instance s) (job_sequence s)
                 (length (job_sequence s) - 1) (nat (num_machines (the_instance s)) - 1)
           \<and> getMakespan (invalidateCache s) = Inr (makespan s', s')"
proof -
  let ?inst = "the_instance s" and ?js = "job_sequence s"
  let ?m = "nat (num_machines ?inst)" and ?n = "length ?js"
  have sh0: "shape ?n ?m (replicate ?n (replicate ?m 0))"
    by (simp add: shape_def)
  have f0: "filled ?inst ?js ?m (replicate ?n (replicate ?m 0)) 0 0"
    by (simp add: filled_def)
  from pos_loop_inv [OF assms(1,3) refl _ sh0 f0]
  obtain C where C: "pos_loop ?inst ?js ?m [0..<?n] (replicate ?n (replicate ?m 0)) = Inr C"
    "shape ?n ?m C" "filled ?inst ?js ?m C ?n 0" by auto
  from assms(1,2) have pos: "0 < ?n" "0 < ?m"
    by (auto simp: ProblemInstance_isValid_def split: if_splits)
  define s' where "s' = s\<lparr> completion_times := C,
                     makespan := C ! (?n - 1) ! (?m - 1), makespan_calculated := True \<rparr>"
  have calc: "calculateMakespan s = Inr s'"
    using C(1) pos by (simp add: calculateMakespan_def Let_def s'_def)
  have cells: "\<forall>p < ?n. \<forall>k < ?m. C ! p ! k = evaluator_C ?inst ?js p k"
    using C(3) by (simp add: filled_def)
  have ms: "C ! (?n - 1) ! (?m - 1) = evaluator_C ?inst ?js (?n - 1) (?m - 1)"
    using cells pos by simp
  have "calculateMakespan (invalidateCache s) = Inr s'"
    using C(1) pos by (simp add: calculateMakespan_def Let_def s'_def invalidateCache_def)
  then have gm: "getMakespan (invalidateCache s) = Inr (makespan s', s')"
    by (simp add: getMakespan_def invalidateCache_def)
  show ?thesis
    using calc cells ms gm by (intro exI [of _ s']) (simp add: s'_def)
qed


text \<open>
  Claim C1, as stated for every valid instance, fails where a sum leaves the range of
  \<^verbatim>\<open>int\<close>. One job with processing times 2147483647 and 1 on two machines is a valid
  instance; the recurrence gives the completion times 2147483647 and 2147483648, the
  evaluator stores 2147483647 and -2147483648 and returns the makespan -2147483648.
\<close>

theorem calculateMakespan_overflow:
  "ProblemInstance_isValid overflow_instance
   \<and> Solution_new overflow_instance = Inr overflow_solution
   \<and> flowshop_C overflow_instance [0] 0 0 = 2147483647
   \<and> flowshop_C overflow_instance [0] 0 1 = 2147483648
   \<and> getMakespan overflow_solution =
       Inr (- 2147483648,
            overflow_solution\<lparr> completion_times := [[2147483647, - 2147483648]],
                               makespan := - 2147483648, makespan_calculated := True \<rparr>)"
  by code_simp



subsection \<open>Configuration validity and construction\<close>




subsection \<open>A valid configuration on which grazing raises\<close>

lemma graze_zero: "graze h 0 g = Inl InvalidArgument"
  by (simp add: graze_def)

lemma grazing_loop_zero: "hs \<noteq> [] \<Longrightarrow> grazing_loop 0 hs g = Inl InvalidArgument"
  by (cases hs) (simp_all add: graze_zero)

text \<open>
  Claim C10. A configuration with grazing intensity 0 passes the validity predicate, and
  with any such configuration the grazing phase, hence the iteration, raises the
  invalid-argument error of \<^verbatim>\<open>Horse::graze\<close> as soon as the herd has a horse.
\<close>

theorem zero_grazing_raises:
  "HHOAParameters_isValid zero_grazing_parameters \<and> grazing_intensity zero_grazing_parameters = 0
   \<and> (\<forall>hhoa iteration g.
         HHOAParameters_isValid (parameters hhoa) \<and> grazing_intensity (parameters hhoa) = 0
           \<and> horses (herd hhoa) \<noteq> []
         \<longrightarrow> performGrazing (herd hhoa) (grazing_intensity (parameters hhoa)) g = Inl InvalidArgument
           \<and> executeIteration hhoa iteration g = Some (Inl InvalidArgument))"
proof -
  have "HHOAParameters_isValid zero_grazing_parameters"
    by (simp add: HHOAParameters_isValid_def zero_grazing_parameters_def default_parameters_def)
  moreover have "grazing_intensity zero_grazing_parameters = 0"
    by (simp add: zero_grazing_parameters_def)
  moreover have "performGrazing (herd hhoa) (grazing_intensity (parameters hhoa)) g = Inl InvalidArgument
           \<and> executeIteration hhoa iteration g = Some (Inl InvalidArgument)"
    if "grazing_intensity (parameters hhoa) = 0" "horses (herd hhoa) \<noteq> []" for hhoa iteration g
  proof -
    have pg: "performGrazing (herd hhoa) (grazing_intensity (parameters hhoa)) g = Inl InvalidArgument"
      using that by (simp add: performGrazing_def grazing_loop_zero)
    then show ?thesis
      by (simp add: executeIteration_def behaviour_phases_def)
  qed
  ultimately show ?thesis by blast
qed

text \<open>On the worked example the run of such a configuration ends in that error.\<close>

theorem zero_grazing_raises_witness:
  "HHOAParameters_isValid (parameters zero_grazing_hhoa)
   \<and> grazing_intensity (parameters zero_grazing_hhoa) = 0
   \<and> horses (herd zero_grazing_hhoa) \<noteq> []
   \<and> executeIteration zero_grazing_hhoa 0 [] = Some (Inl InvalidArgument)
   \<and> initial_population example_instance zero_grazing_parameters [] = Inr [[0, 1, 2, 3]]
   \<and> run_outcome example_instance zero_grazing_parameters [] = Some (Inl InvalidArgument)"
proof -
  have p: "parameters zero_grazing_hhoa = zero_grazing_parameters"
    by (simp add: zero_grazing_hhoa_def)
  have h: "horses (herd zero_grazing_hhoa) \<noteq> []"
    by (simp add: zero_grazing_hhoa_def example_herd_def)
  have i: "initial_population example_instance zero_grazing_parameters [] = Inr [[0, 1, 2, 3]]"
    by code_simp
  have r: "run_outcome example_instance zero_grazing_parameters [] = Some (Inl InvalidArgument)"
    by code_simp
  from zero_grazing_raises p h i r show ?thesis by simp
qed

subsection \<open>The termination predicate\<close>

lemma refresh_leader_if_herd:
  "refresh_leader_if n hrd g = Inr (n', hrd', g') \<Longrightarrow> g' = g \<and> n' = n"
  by (auto simp: refresh_leader_if_def split: if_splits sum.splits)

















subsection \<open>The leader\<close>

lemma getBestMakespan_fields:
  "getBestMakespan h = Inr (m, h') \<Longrightarrow>
     best_fitness h' = best_fitness h \<and> fitness h' = fitness h \<and> solution h' = solution h
     \<and> is_leader h' = is_leader h \<and> stagnation_counter h' = stagnation_counter h
     \<and> job_sequence (best_solution h') = job_sequence (best_solution h)"
  by (auto simp: getBestMakespan_def getMakespan_def calculateMakespan_def Let_def
      split: sum.splits if_splits)

lemma mark_leader_leader:
  "mark_leader hs l = Inr (hs', l') \<Longrightarrow>
     best_fitness l' = best_fitness l
     \<and> job_sequence (best_solution l') = job_sequence (best_solution l)
     \<and> solution l' = solution l"
proof (induction hs arbitrary: l hs' l')
  case Nil
  then show ?case by simp
next
  case (Cons h hs)
  from Cons.prems obtain mh h1 ml l1 where
    a: "getBestMakespan h = Inr (mh, h1)" and b: "getBestMakespan l = Inr (ml, l1)"
    by (auto split: sum.splits)
  show ?case
  proof (cases "mh = ml")
    case True
    with Cons.prems a b have "l' = l1" by simp
    with getBestMakespan_fields [OF b] show ?thesis by simp
  next
    case False
    with Cons.prems a b obtain hs2 where "mark_leader hs l1 = Inr (hs2, l')"
      by (auto split: sum.splits)
    from Cons.IH [OF this] getBestMakespan_fields [OF b] show ?thesis by simp
  qed
qed

lemma updateLeader_leader:
  assumes "updateLeader hrd = Inr (leader_changed, hrd')"
  shows "(leader_changed \<longleftrightarrow>
            horses hrd \<noteq> [] \<and>
            best_fitness (horses hrd ! max_element_index (horses hrd)) > best_fitness (leader hrd))
       \<and> (leader_changed \<longrightarrow>
            best_fitness (leader hrd') = best_fitness (horses hrd ! max_element_index (horses hrd))
            \<and> job_sequence (best_solution (leader hrd')) =
                job_sequence (best_solution (horses hrd ! max_element_index (horses hrd)))
            \<and> solution (leader hrd') = solution (horses hrd ! max_element_index (horses hrd)))
       \<and> (\<not> leader_changed \<longrightarrow>
            best_fitness (leader hrd') = best_fitness (leader hrd)
            \<and> job_sequence (best_solution (leader hrd')) = job_sequence (best_solution (leader hrd))
            \<and> solution (leader hrd') = solution (leader hrd))
       \<and> best_fitness (leader hrd') \<ge> best_fitness (leader hrd)"
proof (cases "horses hrd = []")
  case True
  with assms show ?thesis by (simp add: updateLeader_def)
next
  case False
  let ?b = "horses hrd ! max_element_index (horses hrd)"
  let ?ch = "best_fitness ?b > best_fitness (leader hrd)"
  from assms False obtain l1 hs' l2 where
    l1: "(if ?ch then (case getBestMakespan (?b\<lparr> is_leader := True \<rparr>) of
                      Inl e \<Rightarrow> Inl e | Inr (_, l) \<Rightarrow> Inr l)
          else Inr (leader hrd)) = Inr l1"
    and ml: "mark_leader (map (\<lambda>h. h\<lparr> is_leader := False \<rparr>) (horses hrd)) l1 = Inr (hs', l2)"
    and res: "leader_changed = ?ch" "hrd' = hrd\<lparr> horses := hs', leader := l2 \<rparr>"
    by (auto simp: updateLeader_def Let_def split: sum.splits)
  have l1': "best_fitness l1 = (if ?ch then best_fitness ?b else best_fitness (leader hrd))
     \<and> job_sequence (best_solution l1) =
         (if ?ch then job_sequence (best_solution ?b) else job_sequence (best_solution (leader hrd)))
     \<and> solution l1 = (if ?ch then solution ?b else solution (leader hrd))"
  proof (cases ?ch)
    case True
    with l1 obtain m where "getBestMakespan (?b\<lparr> is_leader := True \<rparr>) = Inr (m, l1)"
      by (auto split: sum.splits)
    from getBestMakespan_fields [OF this] True show ?thesis by simp
  next
    case False
    with l1 show ?thesis by simp
  qed
  from mark_leader_leader [OF ml] l1' res False show ?thesis by auto
qed

lemma refresh_leader_if_leader:
  "refresh_leader_if n hrd g = Inr (n', hrd', g') \<Longrightarrow>
     best_fitness (leader hrd') \<ge> best_fitness (leader hrd)"
  by (auto simp: refresh_leader_if_def split: if_splits sum.splits dest: updateLeader_leader)

lemma performGrazing_leader:
  "performGrazing hrd x g = Inr (n, hrd', g') \<Longrightarrow>
     best_fitness (leader hrd') \<ge> best_fitness (leader hrd)"
  by (auto simp: performGrazing_def split: sum.splits dest!: refresh_leader_if_leader)

lemma performRoaming_leader:
  "performRoaming hrd x y g = Inr (n, hrd', g') \<Longrightarrow>
     best_fitness (leader hrd') \<ge> best_fitness (leader hrd)"
  by (auto simp: performRoaming_def split: sum.splits dest!: refresh_leader_if_leader)

lemma performFollowing_leader:
  "performFollowing hrd x g = Inr (n, hrd', g') \<Longrightarrow>
     best_fitness (leader hrd') \<ge> best_fitness (leader hrd)"
  by (auto simp: performFollowing_def split: sum.splits dest!: refresh_leader_if_leader)

lemma performMating_leader:
  "performMating hrd x y g = Some (Inr (n, hrd', g')) \<Longrightarrow>
     best_fitness (leader hrd') \<ge> best_fitness (leader hrd)"
  by (auto simp: performMating_def Let_def split: sum.splits option.splits
      dest!: refresh_leader_if_leader)

lemma performMutation_leader:
  "performMutation hrd x g = Inr (n, hrd', g') \<Longrightarrow>
     best_fitness (leader hrd') \<ge> best_fitness (leader hrd)"
  by (auto simp: performMutation_def split: sum.splits dest!: refresh_leader_if_leader)

lemma replaceWeakHorses_leader:
  "replaceWeakHorses hrd x g = Inr (n, hrd', g') \<Longrightarrow>
     best_fitness (leader hrd') \<ge> best_fitness (leader hrd)"
  by (auto simp: replaceWeakHorses_def Let_def split: sum.splits if_splits
      dest!: updateLeader_leader)

lemma rejuvenateStagnantHorses_leader:
  "rejuvenateStagnantHorses hrd x g = Inr (n, hrd', g') \<Longrightarrow>
     best_fitness (leader hrd') \<ge> best_fitness (leader hrd)"
  by (auto simp: rejuvenateStagnantHorses_def split: sum.splits dest!: refresh_leader_if_leader)

lemma improveElite_leader:
  "improveElite hrd x g = Inr (n, hrd', g') \<Longrightarrow>
     best_fitness (leader hrd') \<ge> best_fitness (leader hrd)"
  by (auto simp: improveElite_def sortByFitness_def Let_def split: sum.splits
      dest!: refresh_leader_if_leader)

lemma behaviour_phases_leader:
  assumes "behaviour_phases hhoa g = Some (Inr (imp, hhoa', g'))"
  shows "best_fitness (leader (herd hhoa')) \<ge> best_fitness (leader (herd hhoa))"
proof -
  from assms obtain n1 h1 g1 where
    a: "performGrazing (herd hhoa) (grazing_intensity (parameters hhoa)) g = Inr (n1, h1, g1)"
    by (auto simp: behaviour_phases_def split: sum.splits)
  from assms a obtain n2 h2 g2 where
    b: "performRoaming h1 (roaming_rate (parameters hhoa))
             (exploration_rate (parameters hhoa)) g1 = Inr (n2, h2, g2)"
    by (auto simp: behaviour_phases_def split: sum.splits)
  from assms a b obtain n3 h3 g3 where
    c: "performFollowing h2 (following_rate (parameters hhoa)) g2 = Inr (n3, h3, g3)"
    by (auto simp: behaviour_phases_def split: sum.splits)
  from assms a b c obtain n4 h4 g4 where
    d: "performMating h3 (mating_rate (parameters hhoa))
             (crossover_rate (parameters hhoa)) g3 = Some (Inr (n4, h4, g4))"
    by (auto simp: behaviour_phases_def split: sum.splits option.splits)
  from assms a b c d obtain n5 h5 where
    e: "performMutation h4 (mutation_rate (parameters hhoa)) g4 = Inr (n5, h5, g')"
    and r: "hhoa' = hhoa\<lparr> herd := ageHorses h5 \<rparr>"
    by (auto simp: behaviour_phases_def split: sum.splits)
  from performGrazing_leader [OF a] performRoaming_leader [OF b] performFollowing_leader [OF c]
    performMating_leader [OF d] performMutation_leader [OF e] r
  show ?thesis by (simp add: ageHorses_def)
qed

lemma phase_replace_leader:
  "phase_replace hhoa it g = Inr (hhoa', g') \<Longrightarrow>
     best_fitness (leader (herd hhoa')) \<ge> best_fitness (leader (herd hhoa))"
  by (auto simp: phase_replace_def split: sum.splits if_splits dest!: replaceWeakHorses_leader)

lemma phase_rejuvenate_leader:
  "phase_rejuvenate hhoa it g = Inr (hhoa', g') \<Longrightarrow>
     best_fitness (leader (herd hhoa')) \<ge> best_fitness (leader (herd hhoa))"
  by (auto simp: phase_rejuvenate_def split: sum.splits if_splits
      dest!: rejuvenateStagnantHorses_leader)

lemma phase_elite_leader:
  "phase_elite hhoa it g = Inr (imp, hhoa', g') \<Longrightarrow>
     best_fitness (leader (herd hhoa')) \<ge> best_fitness (leader (herd hhoa))"
  by (auto simp: phase_elite_def split: sum.splits if_splits dest!: improveElite_leader)

lemma applyDiversityPreservation_leader:
  "applyDiversityPreservation hhoa d g = Inr (b, hhoa', g') \<Longrightarrow>
     best_fitness (leader (herd hhoa')) \<ge> best_fitness (leader (herd hhoa))"
  by (auto simp: applyDiversityPreservation_def Let_def split: sum.splits if_splits
      dest!: replaceWeakHorses_leader)

lemma calculateDiversity_leader: "leader (calculateDiversity hrd) = leader hrd"
  by (simp add: calculateDiversity_def Let_def)

lemma phase_leader_diversity_leader:
  assumes "phase_leader_diversity hhoa g = Inr (hhoa', g')"
  shows "best_fitness (leader (herd hhoa')) \<ge> best_fitness (leader (herd hhoa))"
proof -
  from assms obtain ch h1 where u: "updateLeader (herd hhoa) = Inr (ch, h1)"
    by (auto simp: phase_leader_diversity_def split: sum.splits)
  define hhoa1 where "hhoa1 = hhoa\<lparr> herd := calculateDiversity h1,
                            statistics := (if ch
                               then (statistics hhoa)
                                      \<lparr> leader_changes := leader_changes (statistics hhoa) + 1 \<rparr>
                               else statistics hhoa) \<rparr>"
  have l1: "best_fitness (leader (herd hhoa1)) \<ge> best_fitness (leader (herd hhoa))"
    using updateLeader_leader [OF u] by (simp add: hhoa1_def calculateDiversity_leader)
  from assms u have "hhoa' = hhoa1 \<or>
      (\<exists>b. applyDiversityPreservation hhoa1 (diversity (herd hhoa1)) g = Inr (b, hhoa', g'))"
    by (auto simp: phase_leader_diversity_def Let_def hhoa1_def split: sum.splits if_splits)
  with l1 show ?thesis
    by (auto dest!: applyDiversityPreservation_leader)
qed

lemma executeIteration_leader:
  assumes "executeIteration hhoa it g = Some (Inr (imp, hhoa', g'))"
  shows "best_fitness (leader (herd hhoa')) \<ge> best_fitness (leader (herd hhoa))"
proof -
  from assms obtain i1 h1 g1 h2 g2 h3 g3 i2 h4 g4 where
    a: "behaviour_phases hhoa g = Some (Inr (i1, h1, g1))"
    and b: "phase_replace h1 it g1 = Inr (h2, g2)"
    and c: "phase_rejuvenate h2 it g2 = Inr (h3, g3)"
    and d: "phase_elite h3 it g3 = Inr (i2, h4, g4)"
    and e: "phase_leader_diversity h4 g4 = Inr (hhoa', g')"
    by (auto simp: executeIteration_def split: sum.splits option.splits)
  from behaviour_phases_leader [OF a] phase_replace_leader [OF b] phase_rejuvenate_leader [OF c]
    phase_elite_leader [OF d] phase_leader_diversity_leader [OF e]
  show ?thesis by simp
qed

lemma optimize_loop_unfold:
  assumes run: "optimize_loop (it # rest) hhoa sc bm g = Some (Inr (hhoa', g'))"
  shows "\<exists>imp h1 g1 h4 sc' bm' stop.
           executeIteration hhoa it g = Some (Inr (imp, h1, g1))
         \<and> herd h4 = herd h1
         \<and> shouldTerminate h4 it sc' = Inr stop
         \<and> (if stop then hhoa' = h4 \<and> g' = g1
            else optimize_loop rest
                   (h4\<lparr> herd := nextGeneration (herd h4),
                           statistics := (statistics h4) \<lparr> iterations_executed := it + 1 \<rparr> \<rparr>)
                   sc' bm' g1 = Some (Inr (hhoa', g')))"
proof -
  from run obtain imp h1 g1 where ex: "executeIteration hhoa it g = Some (Inr (imp, h1, g1))"
    by (auto split: option.splits sum.splits)
  from run ex obtain h2 where rs: "recordStatistics h1 = Inr h2"
    by (auto split: option.splits sum.splits)
  from run ex rs obtain cm where bmk: "herd_best_makespan (herd h2) = Inr cm"
    by (auto split: option.splits sum.splits)
  define better where "better = (cm < bm)"
  define bm' where "bm' = (if better then cm else bm)"
  define sc' where "sc' = (if better then 0 else sc + 1)"
  define h3 where "h3 = (if better
                       then h2\<lparr> statistics := (statistics h2)
                              \<lparr> total_improvements := total_improvements (statistics h2) + 1 \<rparr> \<rparr>
                       else h2)"
  define h4 where "h4 = (if adaptive_parameters (parameters h3)
                       then h3\<lparr> parameters :=
                              updateAdaptiveParameters (parameters h3) it
                                (diversity (herd h3)) sc' \<rparr>
                       else h3)"
  have hd: "herd h4 = herd h1"
    using rs by (auto simp: h4_def h3_def recordStatistics_def split: sum.splits)
  have run': "(case shouldTerminate h4 it sc' of
               Inl e \<Rightarrow> Some (Inl e)
             | Inr True \<Rightarrow> Some (Inr (h4, g1))
             | Inr False \<Rightarrow>
                 optimize_loop rest
                   (h4\<lparr> herd := nextGeneration (herd h4),
                           statistics := (statistics h4)
                             \<lparr> iterations_executed := it + 1 \<rparr> \<rparr>)
                   sc' bm' g1) = Some (Inr (hhoa', g'))"
    using run unfolding h4_def h3_def sc'_def bm'_def better_def
    by (simp only: optimize_loop.simps ex rs bmk option.case sum.case prod.case Let_def)
  then obtain stop where st: "shouldTerminate h4 it sc' = Inr stop"
    by (cases "shouldTerminate h4 it sc'") auto
  show ?thesis
    using ex hd st run'
    by (intro exI [of _ imp] exI [of _ h1] exI [of _ g1] exI [of _ h4] exI [of _ sc']
        exI [of _ bm'] exI [of _ stop]) (cases stop; simp)
qed

lemma optimize_loop_leader:
  "optimize_loop its hhoa sc bm g = Some (Inr (hhoa', g')) \<Longrightarrow>
     best_fitness (leader (herd hhoa')) \<ge> best_fitness (leader (herd hhoa))"
proof (induction its arbitrary: hhoa sc bm g)
  case Nil
  then show ?case by simp
next
  case (Cons it rest)
  from optimize_loop_unfold [OF Cons.prems] obtain imp h1 g1 h4 sc' bm' stop where
    ex: "executeIteration hhoa it g = Some (Inr (imp, h1, g1))"
    and h4: "herd h4 = herd h1"
    and run: "if stop then hhoa' = h4 \<and> g' = g1
            else optimize_loop rest
                   (h4\<lparr> herd := nextGeneration (herd h4),
                           statistics := (statistics h4) \<lparr> iterations_executed := it + 1 \<rparr> \<rparr>)
                   sc' bm' g1 = Some (Inr (hhoa', g'))"
    by blast
  show ?case
  proof (cases stop)
    case True
    with run h4 executeIteration_leader [OF ex] show ?thesis by simp
  next
    case False
    with run have "optimize_loop rest
                   (h4\<lparr> herd := nextGeneration (herd h4),
                           statistics := (statistics h4) \<lparr> iterations_executed := it + 1 \<rparr> \<rparr>)
                   sc' bm' g1 = Some (Inr (hhoa', g'))" by simp
    from Cons.IH [OF this] h4 executeIteration_leader [OF ex]
    show ?thesis by (simp add: nextGeneration_def)
  qed
qed

lemma HorseHerd_initialize_leader:
  assumes "HorseHerd_initialize hrd x g = Inr (hrd', g')"
  shows "best_fitness (leader hrd') \<ge> best_fitness (leader hrd)"
proof -
  from assms obtain hs b h1 where
    u: "updateLeader (hrd\<lparr> horses := hs \<rparr>) = Inr (b, h1)"
    and l: "log_best_makespan (calculateDiversity h1) = Inr hrd'"
    by (auto simp: HorseHerd_initialize_def Let_def split: sum.splits if_splits)
  from l have "leader hrd' = leader h1"
    by (auto simp: log_best_makespan_def calculateDiversity_leader split: sum.splits if_splits)
  with updateLeader_leader [OF u] show ?thesis by simp
qed

lemma optimize_leader:
  assumes "optimize hhoa iterations g = Some (Inr (best, hhoa', g'))"
  shows "best_fitness (leader (herd hhoa')) \<ge> best_fitness (leader (herd hhoa))"
proof -
  from assms obtain h0 g0 bm where
    i: "HHOA_initialize hhoa g = Inr (h0, g0)"
    and l: "optimize_loop [0..iterations - 1] h0 0 bm g0 = Some (Inr (hhoa', g'))"
    by (auto simp: optimize_def split: sum.splits option.splits)
  from i obtain hrd where "HorseHerd_initialize (herd hhoa) 0.8 g = Inr (hrd, g0)" "herd h0 = hrd"
    by (auto simp: HHOA_initialize_def split: sum.splits)
  with HorseHerd_initialize_leader [of "herd hhoa" "0.8" g hrd g0] optimize_loop_leader [OF l]
  show ?thesis by simp
qed


text \<open>
  Claim C3. \<^verbatim>\<open>updateLeader\<close> returns true exactly when the herd is not empty and its
  best horse's best fitness strictly exceeds the stored leader's; it then installs a copy
  of that horse (same best fitness, best job sequence and current solution), and otherwise
  keeps the leader's. Nothing else writes the leader: across \<^verbatim>\<open>executeIteration\<close>, across
  the loop of \<^verbatim>\<open>optimize\<close> from any iteration on, and across a whole call of
  \<^verbatim>\<open>optimize\<close>, the leader's best fitness does not decrease.
\<close>

theorem leader_never_regresses:
  "(updateLeader hrd = Inr (leader_changed, hrd') \<longrightarrow>
      (leader_changed \<longleftrightarrow>
            horses hrd \<noteq> [] \<and>
            best_fitness (horses hrd ! max_element_index (horses hrd)) > best_fitness (leader hrd))
       \<and> (leader_changed \<longrightarrow>
            best_fitness (leader hrd') = best_fitness (horses hrd ! max_element_index (horses hrd))
            \<and> job_sequence (best_solution (leader hrd')) =
                job_sequence (best_solution (horses hrd ! max_element_index (horses hrd)))
            \<and> solution (leader hrd') = solution (horses hrd ! max_element_index (horses hrd)))
       \<and> (\<not> leader_changed \<longrightarrow>
            best_fitness (leader hrd') = best_fitness (leader hrd)
            \<and> job_sequence (best_solution (leader hrd')) = job_sequence (best_solution (leader hrd))
            \<and> solution (leader hrd') = solution (leader hrd))
       \<and> best_fitness (leader hrd') \<ge> best_fitness (leader hrd))
   \<and> (executeIteration hhoa iteration g = Some (Inr (improved, hhoa1, g1)) \<longrightarrow>
        best_fitness (leader (herd hhoa1)) \<ge> best_fitness (leader (herd hhoa)))
   \<and> (optimize_loop its hhoa sc bm g = Some (Inr (hhoa2, g2)) \<longrightarrow>
        best_fitness (leader (herd hhoa2)) \<ge> best_fitness (leader (herd hhoa)))
   \<and> (optimize hhoa iterations g = Some (Inr (best, hhoa3, g3)) \<longrightarrow>
        best_fitness (leader (herd hhoa3)) \<ge> best_fitness (leader (herd hhoa)))"
  using updateLeader_leader [of hrd leader_changed hrd']
    executeIteration_leader [of hhoa iteration g improved hhoa1 g1]
    optimize_loop_leader [of its hhoa sc bm g hhoa2 g2]
    optimize_leader [of hhoa iterations g best hhoa3 g3]
  by blast

text \<open>On the herd with a better second horse the leader is replaced by a copy of it; on
  the one-horse herd an iteration and a run of two iterations return with a leader no
  worse than before.\<close>

theorem leader_never_regresses_witness:
  "(\<exists>hrd'. updateLeader challenger_herd = Inr (True, hrd')
        \<and> best_fitness (leader challenger_herd) = -26 \<and> best_fitness (leader hrd') = -25
        \<and> job_sequence (best_solution (leader hrd')) = [3, 2, 1, 0])
   \<and> (\<exists>improved hhoa1 g1. executeIteration example_hhoa 0 [] = Some (Inr (improved, hhoa1, g1))
        \<and> best_fitness (leader (herd hhoa1)) \<ge> best_fitness (leader (herd example_hhoa)))
   \<and> (\<exists>best hhoa3 g3. optimize example_hhoa 2 [] = Some (Inr (best, hhoa3, g3))
        \<and> best_fitness (leader (herd hhoa3)) \<ge> best_fitness (leader (herd example_hhoa)))"
proof -
  have "updateLeader_outcome challenger_herd = Some (True, -25, [3, 2, 1, 0])"
    by code_simp
  then obtain hrd' where u: "updateLeader challenger_herd = Inr (True, hrd')"
    and u': "best_fitness (leader hrd') = -25"
      "job_sequence (best_solution (leader hrd')) = [3, 2, 1, 0]"
    by (auto simp: updateLeader_outcome_def split: sum.splits)
  have u0: "best_fitness (leader challenger_herd) = -26"
    by (simp add: challenger_herd_def example_horse_def)
  have "iteration_leader_fitness example_hhoa 0 [] \<noteq> None"
    by code_simp
  then obtain improved hhoa1 g1 where
    e: "executeIteration example_hhoa 0 [] = Some (Inr (improved, hhoa1, g1))"
    by (auto simp: iteration_leader_fitness_def split: option.splits sum.splits)
  have "run_leader_fitness example_hhoa 2 [] \<noteq> None"
    by code_simp
  then obtain best hhoa3 g3 where
    r: "optimize example_hhoa 2 [] = Some (Inr (best, hhoa3, g3))"
    by (auto simp: run_leader_fitness_def split: option.splits sum.splits)
  from leader_never_regresses [of challenger_herd True hrd' example_hhoa 0 "[]" improved hhoa1 g1
      "[]" 0 0 example_hhoa "[]" 2 best hhoa3 g3] u e r
  have "best_fitness (leader (herd hhoa1)) \<ge> best_fitness (leader (herd example_hhoa))"
    "best_fitness (leader (herd hhoa3)) \<ge> best_fitness (leader (herd example_hhoa))"
    by simp_all
  with u u' u0 e r show ?thesis by blast
qed

subsection \<open>What a run returns\<close>

text \<open>
  Claim C4 fails on the code. \<^verbatim>\<open>optimize\<close> returns \<^verbatim>\<open>herd_->getBestSolution()\<close>, the best
  personal best of the horses now in the herd, not the leader; replacement and
  rejuvenation discard personal bests. On two jobs with one horse and one iteration the
  population starts with the order 0, 1 of makespan 12, diversity preservation replaces
  the horse by a random one, and the run returns the order 1, 0 of makespan 21, a valid
  solution, while the leader still holds the order 0, 1.
\<close>

theorem optimize_returns_worse_than_initial_best:
  "ProblemInstance_isValid two_job_instance
   \<and> HHOAParameters_isValid single_horse_parameters
   \<and> initial_population two_job_instance single_horse_parameters regress_tape = Inr [[0, 1]]
   \<and> initial_best_makespan two_job_instance single_horse_parameters regress_tape = Inr 12
   \<and> run_summary two_job_instance single_horse_parameters regress_tape
       = Some (Inr ([1, 0], 21, True, [0, 1], -12))"
proof -
  have "ProblemInstance_isValid two_job_instance"
    by (simp add: two_job_instance_def ProblemInstance_of_def ProblemInstance_isValid_def)
  moreover have "HHOAParameters_isValid single_horse_parameters"
    by (simp add: single_horse_parameters_def default_parameters_def HHOAParameters_isValid_def)
  moreover have "initial_population two_job_instance single_horse_parameters regress_tape
      = Inr [[0, 1]]"
    by code_simp
  moreover have "initial_best_makespan two_job_instance single_horse_parameters regress_tape
      = Inr 12"
    by code_simp
  moreover have "run_summary two_job_instance single_horse_parameters regress_tape
       = Some (Inr ([1, 0], 21, True, [0, 1], -12))"
    by code_simp
  ultimately show ?thesis by simp
qed

subsection \<open>Roaming\<close>

lemma next_raw_tl: "snd (next_raw g) = drop 1 g"
  by (cases g) (simp_all add: next_raw_def)

lemma randInt_ok:
  "lo \<le> hi \<Longrightarrow> \<exists>v. randInt lo hi g = Inr (v, drop 1 g) \<and> lo \<le> v \<and> v \<le> hi"
proof -
  assume h: "lo \<le> hi"
  obtain r g' where n: "next_raw g = (r, g')" by (cases "next_raw g")
  with next_raw_tl [of g] have g': "g' = drop 1 g" by simp
  from h have pos: "0 < hi - lo + 1" by simp
  have "0 \<le> r mod (hi - lo + 1)" "r mod (hi - lo + 1) < hi - lo + 1"
    using pos_mod_sign [OF pos] pos_mod_bound [OF pos] by simp_all
  with h n g' show ?thesis by (simp add: randInt_def)
qed



lemma mset_swap_at:
  "i < length xs \<Longrightarrow> j < length xs \<Longrightarrow> mset (swap_at xs i j) = mset xs"
  by (simp add: swap_at_def mset_swap)

lemma length_swap_at [simp]: "length (swap_at xs i j) = length xs"
  by (simp add: swap_at_def)

lemma mset_relocate:
  assumes "i < length xs" "k < length xs"
  shows "mset (insert_at (erase_at xs i) k (xs ! i)) = mset xs"
proof -
  have "mset (take k (erase_at xs i)) + mset (drop k (erase_at xs i)) = mset (erase_at xs i)"
    by (simp flip: mset_append)
  then have "mset (insert_at (erase_at xs i) k (xs ! i)) = mset (erase_at xs i) + {#xs ! i#}"
    by (simp add: insert_at_def)
  also have "\<dots> = mset (take i xs @ xs ! i # drop (Suc i) xs)"
    by (simp add: erase_at_def)
  also have "\<dots> = mset xs"
    using assms(1) by (simp add: id_take_nth_drop [symmetric])
  finally show ?thesis .
qed










subsection \<open>Well-formed horses: evaluation never fails\<close>

lemma wf_solution_content:
  "job_sequence s' = job_sequence s \<Longrightarrow> the_instance s' = the_instance s \<Longrightarrow>
   wf_solution s' = wf_solution s \<and> true_makespan s' = true_makespan s"
  by (simp add: wf_solution_def true_makespan_def)


lemma getMakespan_ok:
  assumes wf: "wf_solution s" and c: "cache_ok s"
  shows "\<exists>s'. getMakespan s = Inr (true_makespan s, s')
           \<and> job_sequence s' = job_sequence s \<and> the_instance s' = the_instance s
           \<and> makespan_calculated s' \<and> makespan s' = true_makespan s"
proof (cases "makespan_calculated s")
  case True
  with c show ?thesis by (simp add: getMakespan_def cache_ok_def)
next
  case False
  from wf have a: "ProblemInstance_isValid (the_instance s)"
    "int (length (job_sequence s)) = num_jobs (the_instance s)"
    "jobs_in_range (the_instance s) (job_sequence s)"
    by (simp_all add: wf_solution_def)
  from calculateMakespan_cells [OF a] obtain s' where
    s': "calculateMakespan s = Inr s'" "job_sequence s' = job_sequence s" "makespan_calculated s'"
      "makespan s' = true_makespan s"
    by (auto simp: true_makespan_def sequence_makespan_def)
  from s'(1) have "the_instance s' = the_instance s"
    by (auto simp: calculateMakespan_def Let_def split: sum.splits)
  with s' False show ?thesis by (simp add: getMakespan_def)
qed

lemma getMakespan_ok':
  assumes wf: "wf_solution s" and c: "cache_ok s"
  obtains s' where "getMakespan s = Inr (true_makespan s, s')"
    "job_sequence s' = job_sequence s" "the_instance s' = the_instance s"
    "wf_solution s'" "cache_ok s'" "true_makespan s' = true_makespan s"
proof -
  from getMakespan_ok [OF wf c] obtain s' where
    s': "getMakespan s = Inr (true_makespan s, s')"
      "job_sequence s' = job_sequence s" "the_instance s' = the_instance s"
      "makespan_calculated s'" "makespan s' = true_makespan s" by blast
  from wf_solution_content [OF s'(2,3)] wf have "wf_solution s'" "true_makespan s' = true_makespan s"
    by simp_all
  moreover from this s'(5) have "cache_ok s'" by (simp add: cache_ok_def)
  ultimately show ?thesis using that s' by blast
qed




lemma wf_solution_mset:
  assumes "wf_solution s" "mset (job_sequence s') = mset (job_sequence s)"
    "the_instance s' = the_instance s"
  shows "wf_solution s'"
proof -
  from assms(2) have "length (job_sequence s') = length (job_sequence s)"
    "set (job_sequence s') = set (job_sequence s)"
    using mset_eq_length mset_eq_setD by blast+
  with assms(1,3) show ?thesis
    by (simp add: wf_solution_def jobs_in_range_def list_all_iff)
qed

















subsection \<open>The mutation pass\<close>




subsection \<open>The local searches\<close>

lemma swap_at_twice:
  "i < length xs \<Longrightarrow> j < length xs \<Longrightarrow> swap_at (swap_at xs i j) i j = xs"
  by (auto simp: swap_at_def list_eq_iff_nth_eq nth_list_update)

lemma swapJobs_ok:
  assumes wf: "wf_solution s" and i: "i < length (job_sequence s)" and j: "j < length (job_sequence s)"
  shows "\<exists>s'. swapJobs s (int i) (int j) = Inr s'
          \<and> job_sequence s' = swap_at (job_sequence s) i j
          \<and> the_instance s' = the_instance s \<and> wf_solution s' \<and> cache_ok s'"
proof -
  let ?s' = "invalidateCache (s\<lparr> job_sequence := swap_at (job_sequence s) i j \<rparr>)"
  have a: "swapJobs s (int i) (int j) = Inr ?s'"
    using i j by (simp add: swapJobs_def)
  have b: "job_sequence ?s' = swap_at (job_sequence s) i j" "the_instance ?s' = the_instance s"
    "cache_ok ?s'"
    by (simp_all add: invalidateCache_def cache_ok_def)
  have "mset (job_sequence ?s') = mset (job_sequence s)"
    using mset_swap_at [OF i j] b(1) by simp
  from wf_solution_mset [OF wf this b(2)] a b show ?thesis by blast
qed

lemma apply2OptSearch_inner_ok:
  assumes i: "i < length js0"
  shows "wf_solution s \<Longrightarrow> cache_ok s \<Longrightarrow> job_sequence s = js0 \<Longrightarrow> the_instance s = inst \<Longrightarrow>
     \<forall>j \<in> set js. j < length js0 \<Longrightarrow>
     \<exists>s'. apply2OptSearch_inner cur i js s =
             Inr (find (\<lambda>j. sequence_makespan inst (swap_at js0 i j) < cur) js \<noteq> None, s')
        \<and> job_sequence s' =
             (case find (\<lambda>j. sequence_makespan inst (swap_at js0 i j) < cur) js of
                None \<Rightarrow> js0 | Some j \<Rightarrow> swap_at js0 i j)
        \<and> the_instance s' = inst \<and> wf_solution s' \<and> cache_ok s'"
proof (induction js arbitrary: s)
  case Nil
  then show ?case by simp
next
  case (Cons j js)
  from Cons.prems have j: "j < length (job_sequence s)" and i': "i < length (job_sequence s)"
    using i by simp_all
  from swapJobs_ok [OF Cons.prems(1) i' j] obtain s1 where
    s1: "swapJobs s (int i) (int j) = Inr s1" "job_sequence s1 = swap_at js0 i j"
      "the_instance s1 = inst" "wf_solution s1" "cache_ok s1"
    using Cons.prems by auto
  from getMakespan_ok' [OF s1(4,5)] obtain s2 where
    s2: "getMakespan s1 = Inr (true_makespan s1, s2)" "job_sequence s2 = job_sequence s1"
      "the_instance s2 = the_instance s1" "wf_solution s2" "cache_ok s2" by blast
  have tm: "true_makespan s1 = sequence_makespan inst (swap_at js0 i j)"
    using s1 by (simp add: true_makespan_def)
  show ?case
  proof (cases "sequence_makespan inst (swap_at js0 i j) < cur")
    case True
    with s1 s2 tm show ?thesis by simp
  next
    case False
    have l: "i < length (job_sequence s2)" "j < length (job_sequence s2)"
      using s2(2) s1(2) i' j Cons.prems(3) by simp_all
    from swapJobs_ok [OF s2(4) l] obtain s3 where
      s3: "swapJobs s2 (int i) (int j) = Inr s3" "job_sequence s3 = swap_at (job_sequence s2) i j"
        "the_instance s3 = the_instance s2" "wf_solution s3" "cache_ok s3" by blast
    have restored: "job_sequence s3 = js0"
      using s3(2) s2(2) s1(2) swap_at_twice [of i js0 j] i j Cons.prems(3) by simp
    have inst3: "the_instance s3 = inst" using s3(3) s2(3) s1(3) by simp
    from Cons.IH [OF s3(4,5) restored inst3] Cons.prems(5) obtain s' where
      "apply2OptSearch_inner cur i js s3 =
             Inr (find (\<lambda>j. sequence_makespan inst (swap_at js0 i j) < cur) js \<noteq> None, s')"
      "job_sequence s' =
             (case find (\<lambda>j. sequence_makespan inst (swap_at js0 i j) < cur) js of
                None \<Rightarrow> js0 | Some j \<Rightarrow> swap_at js0 i j)"
      "the_instance s' = inst" "wf_solution s'" "cache_ok s'"
      by auto
    with False s1(1) s2(1) s3(1) tm show ?thesis by simp
  qed
qed


lemma find_append_case:
  "find P (xs @ ys) = (case find P xs of None \<Rightarrow> find P ys | Some x \<Rightarrow> Some x)"
  by (induction xs) simp_all

lemma find_map_Pair:
  "find P (map (Pair i) xs) = map_option (Pair i) (find (\<lambda>j. P (i, j)) xs)"
  by (induction xs) simp_all

lemma find_filter_conj: "find P (filter Q xs) = find (\<lambda>x. Q x \<and> P x) xs"
  by (induction xs) simp_all

lemma apply2OptSearch_outer_ok:
  "wf_solution s \<Longrightarrow> cache_ok s \<Longrightarrow> job_sequence s = js0 \<Longrightarrow> the_instance s = inst \<Longrightarrow>
   \<forall>i \<in> set ks. i < length js0 \<Longrightarrow>
   \<exists>s'. apply2OptSearch_outer cur (length js0) ks s =
           Inr (find (\<lambda>(i, j). sequence_makespan inst (swap_at js0 i j) < cur)
                  (concat (map (\<lambda>i. map (Pair i) [Suc i..<length js0]) ks)) \<noteq> None, s')
      \<and> job_sequence s' =
           (case find (\<lambda>(i, j). sequence_makespan inst (swap_at js0 i j) < cur)
                   (concat (map (\<lambda>i. map (Pair i) [Suc i..<length js0]) ks)) of
              None \<Rightarrow> js0 | Some (i, j) \<Rightarrow> swap_at js0 i j)
      \<and> the_instance s' = inst \<and> wf_solution s' \<and> cache_ok s'"
proof (induction ks arbitrary: s)
  case Nil
  then show ?case by simp
next
  case (Cons i ks)
  let ?P = "\<lambda>(i, j). sequence_makespan inst (swap_at js0 i j) < cur"
  let ?row = "find (\<lambda>j. sequence_makespan inst (swap_at js0 i j) < cur) [Suc i..<length js0]"
  let ?rest = "find ?P (concat (map (\<lambda>i. map (Pair i) [Suc i..<length js0]) ks))"
  have i: "i < length js0" using Cons.prems(5) by simp
  have all: "\<forall>j \<in> set [Suc i..<length js0]. j < length js0" by simp
  from apply2OptSearch_inner_ok [OF i Cons.prems(1-4) all, of cur] obtain s1 where
    s1: "apply2OptSearch_inner cur i [Suc i..<length js0] s = Inr (?row \<noteq> None, s1)"
      "job_sequence s1 = (case ?row of None \<Rightarrow> js0 | Some j \<Rightarrow> swap_at js0 i j)"
      "the_instance s1 = inst" "wf_solution s1" "cache_ok s1" by blast
  have split: "find ?P (concat (map (\<lambda>i. map (Pair i) [Suc i..<length js0]) (i # ks)))
                 = (case ?row of None \<Rightarrow> ?rest | Some j \<Rightarrow> Some (i, j))"
    by (simp add: find_append_case find_map_Pair split: option.split)
  show ?case
  proof (cases ?row)
    case None
    with s1 have js1: "job_sequence s1 = js0" by simp
    from Cons.IH [OF s1(4,5) js1 s1(3)] Cons.prems(5) obtain s' where
      "apply2OptSearch_outer cur (length js0) ks s1 = Inr (?rest \<noteq> None, s')"
      "job_sequence s' = (case ?rest of None \<Rightarrow> js0 | Some (i, j) \<Rightarrow> swap_at js0 i j)"
      "the_instance s' = inst" "wf_solution s'" "cache_ok s'" by auto
    with None s1(1) show ?thesis unfolding split by simp
  next
    case (Some j)
    with s1 show ?thesis unfolding split by simp
  qed
qed

lemma apply2OptSearch_ok:
  assumes wf: "wf_solution (solution h)" and c: "cache_ok (solution h)"
  shows "\<exists>s'. apply2OptSearch h =
            Inr (first_improving_swap (the_instance (solution h)) (job_sequence (solution h)) \<noteq> None,
                 h\<lparr> solution := s' \<rparr>)
       \<and> job_sequence s' =
            (case first_improving_swap (the_instance (solution h)) (job_sequence (solution h)) of
               None \<Rightarrow> job_sequence (solution h)
             | Some (i, j) \<Rightarrow> swap_at (job_sequence (solution h)) i j)
       \<and> the_instance s' = the_instance (solution h) \<and> wf_solution s' \<and> cache_ok s'"
proof -
  define js0 where "js0 = job_sequence (solution h)"
  define inst where "inst = the_instance (solution h)"
  from getMakespan_ok' [OF wf c] obtain s0 where
    s0: "getMakespan (solution h) = Inr (true_makespan (solution h), s0)"
      "job_sequence s0 = js0" "the_instance s0 = inst" "wf_solution s0" "cache_ok s0"
    unfolding js0_def inst_def by blast
  have tm: "true_makespan (solution h) = sequence_makespan inst js0"
    by (simp add: true_makespan_def js0_def inst_def)
  have all: "\<forall>i \<in> set [0..<length js0 - 1]. i < length js0" by auto
  from apply2OptSearch_outer_ok [OF s0(4,5,2,3) all, of "sequence_makespan inst js0"]
  obtain s' where
    s': "apply2OptSearch_outer (sequence_makespan inst js0) (length js0) [0..<length js0 - 1] s0 =
       Inr (first_improving_swap inst js0 \<noteq> None, s')"
    "job_sequence s' = (case first_improving_swap inst js0 of
                          None \<Rightarrow> js0 | Some (i, j) \<Rightarrow> swap_at js0 i j)"
    "the_instance s' = inst" "wf_solution s'" "cache_ok s'"
    unfolding first_improving_swap_def swap_pairs_def by blast
  have "apply2OptSearch h = Inr (first_improving_swap inst js0 \<noteq> None, h\<lparr> solution := s' \<rparr>)"
    using s0(1,2) tm s'(1) by (simp add: apply2OptSearch_def Let_def)
  with s'(2-5) show ?thesis
    unfolding js0_def inst_def by blast
qed

lemma relocate_ok:
  assumes valid: "ProblemInstance_isValid inst" and len: "int (length js0) = num_jobs inst"
    and range: "jobs_in_range inst js0" and i: "i < length js0" and j: "j < length js0"
    and ij: "i \<noteq> j"
  shows "\<exists>t t'. Solution_of (relocate js0 i j) inst = Inr t
           \<and> getMakespan t = Inr (sequence_makespan inst (relocate js0 i j), t')
           \<and> job_sequence t' = relocate js0 i j \<and> the_instance t' = inst
           \<and> wf_solution t' \<and> cache_ok t'"
proof -
  have k: "insertion_target i j < length js0"
    using j by (auto simp: insertion_target_def)
  have m: "mset (relocate js0 i j) = mset js0"
    unfolding relocate_def by (rule mset_relocate [OF i k])
  then have l: "length (relocate js0 i j) = length js0"
    and st: "set (relocate js0 i j) = set js0"
    using mset_eq_length mset_eq_setD by blast+
  define t where "t = \<lparr> job_sequence = relocate js0 i j, the_instance = inst,
                 makespan = -1, makespan_calculated = False, completion_times = [] \<rparr>"
  have so: "Solution_of (relocate js0 i j) inst = Inr t"
    using valid len l by (simp add: Solution_of_def t_def)
  have wf: "wf_solution t"
    using valid len l range st by (simp add: wf_solution_def t_def jobs_in_range_def list_all_iff)
  have c: "cache_ok t" by (simp add: cache_ok_def t_def)
  from getMakespan_ok' [OF wf c] obtain t' where
    "getMakespan t = Inr (true_makespan t, t')"
    "job_sequence t' = job_sequence t" "the_instance t' = the_instance t"
    "wf_solution t'" "cache_ok t'" by blast
  moreover have "true_makespan t = sequence_makespan inst (relocate js0 i j)"
    "job_sequence t = relocate js0 i j" "the_instance t = inst"
    by (simp_all add: true_makespan_def t_def)
  ultimately show ?thesis using so by auto
qed

lemma Horse_insertion_inner_ok:
  assumes valid: "ProblemInstance_isValid inst" and len: "int (length js0) = num_jobs inst"
    and range: "jobs_in_range inst js0" and i: "i < length js0"
  shows "\<forall>j \<in> set js. j < length js0 \<Longrightarrow>
     \<exists>r. Horse_insertion_inner inst cur js0 i js = Inr r
        \<and> (case find (\<lambda>j. i \<noteq> j \<and> sequence_makespan inst (relocate js0 i j) < cur) js of
             None \<Rightarrow> r = None
           | Some j \<Rightarrow> \<exists>t. r = Some t \<and> job_sequence t = relocate js0 i j
                         \<and> the_instance t = inst \<and> wf_solution t \<and> cache_ok t)"
proof (induction js)
  case Nil
  then show ?case by simp
next
  case (Cons j js)
  then have IH: "\<exists>r. Horse_insertion_inner inst cur js0 i js = Inr r
        \<and> (case find (\<lambda>j. i \<noteq> j \<and> sequence_makespan inst (relocate js0 i j) < cur) js of
             None \<Rightarrow> r = None
           | Some j \<Rightarrow> \<exists>t. r = Some t \<and> job_sequence t = relocate js0 i j
                         \<and> the_instance t = inst \<and> wf_solution t \<and> cache_ok t)"
    and j: "j < length js0" by simp_all
  show ?case
  proof (cases "i = j")
    case True
    with IH show ?thesis by simp
  next
    case False
    from relocate_ok [OF valid len range i j False] obtain t t' where
      t: "Solution_of (relocate js0 i j) inst = Inr t"
        "getMakespan t = Inr (sequence_makespan inst (relocate js0 i j), t')"
        "job_sequence t' = relocate js0 i j" "the_instance t' = inst"
        "wf_solution t'" "cache_ok t'" by blast
    have so: "Solution_of (insert_at (erase_at js0 i) (insertion_target i j) (js0 ! i)) inst = Inr t"
      using t(1) by (simp add: relocate_def)
    show ?thesis
    proof (cases "sequence_makespan inst (relocate js0 i j) < cur")
      case True
      with False so t show ?thesis by simp
    next
      case nb: False
      with False so t(2) IH show ?thesis by simp
    qed
  qed
qed

lemma Horse_insertion_outer_ok:
  assumes valid: "ProblemInstance_isValid inst" and len: "int (length js0) = num_jobs inst"
    and range: "jobs_in_range inst js0"
  shows "\<forall>i \<in> set ks. i < length js0 \<Longrightarrow>
     \<exists>r. Horse_insertion_outer inst cur js0 ks = Inr r
        \<and> (case find (\<lambda>(i, j). sequence_makespan inst (relocate js0 i j) < cur)
                   (concat (map (\<lambda>i. map (Pair i) (filter (\<lambda>j. i \<noteq> j) [0..<length js0])) ks)) of
             None \<Rightarrow> r = None
           | Some (i, j) \<Rightarrow> \<exists>t. r = Some t \<and> job_sequence t = relocate js0 i j
                         \<and> the_instance t = inst \<and> wf_solution t \<and> cache_ok t)"
proof (induction ks)
  case Nil
  then show ?case by simp
next
  case (Cons i ks)
  let ?P = "\<lambda>(i, j). sequence_makespan inst (relocate js0 i j) < cur"
  let ?row = "find (\<lambda>j. i \<noteq> j \<and> sequence_makespan inst (relocate js0 i j) < cur) [0..<length js0]"
  let ?rest = "find ?P (concat (map (\<lambda>i. map (Pair i) (filter (\<lambda>j. i \<noteq> j) [0..<length js0])) ks))"
  have i: "i < length js0" using Cons.prems by simp
  have all: "\<forall>j \<in> set [0..<length js0]. j < length js0" by simp
  from Horse_insertion_inner_ok [OF valid len range i all, of cur] obtain r1 where
    r1: "Horse_insertion_inner inst cur js0 i [0..<length js0] = Inr r1"
      "case ?row of None \<Rightarrow> r1 = None
           | Some j \<Rightarrow> \<exists>t. r1 = Some t \<and> job_sequence t = relocate js0 i j
                         \<and> the_instance t = inst \<and> wf_solution t \<and> cache_ok t" by blast
  have split: "find ?P (concat (map (\<lambda>i. map (Pair i) (filter (\<lambda>j. i \<noteq> j) [0..<length js0])) (i # ks)))
                 = (case ?row of None \<Rightarrow> ?rest | Some j \<Rightarrow> Some (i, j))"
    by (simp add: find_append_case find_map_Pair find_filter_conj split: option.split)
  from Cons have IH: "\<exists>r. Horse_insertion_outer inst cur js0 ks = Inr r
        \<and> (case ?rest of
             None \<Rightarrow> r = None
           | Some (i, j) \<Rightarrow> \<exists>t. r = Some t \<and> job_sequence t = relocate js0 i j
                         \<and> the_instance t = inst \<and> wf_solution t \<and> cache_ok t)" by simp
  show ?case
  proof (cases ?row)
    case None
    with r1 IH show ?thesis unfolding split by simp
  next
    case (Some j)
    with r1 show ?thesis unfolding split by auto
  qed
qed

lemma Horse_applyInsertionSearch_ok:
  assumes wf: "wf_solution (solution h)" and c: "cache_ok (solution h)"
  shows "\<exists>s'. Horse_applyInsertionSearch h =
            Inr (first_improving_insertion (the_instance (solution h)) (job_sequence (solution h)) \<noteq> None,
                 h\<lparr> solution := s' \<rparr>)
       \<and> job_sequence s' =
            (case first_improving_insertion (the_instance (solution h)) (job_sequence (solution h)) of
               None \<Rightarrow> job_sequence (solution h)
             | Some (i, j) \<Rightarrow> relocate (job_sequence (solution h)) i j)
       \<and> the_instance s' = the_instance (solution h) \<and> wf_solution s' \<and> cache_ok s'"
proof -
  define js0 where "js0 = job_sequence (solution h)"
  define inst where "inst = the_instance (solution h)"
  from getMakespan_ok' [OF wf c] obtain s0 where
    s0: "getMakespan (solution h) = Inr (true_makespan (solution h), s0)"
      "job_sequence s0 = js0" "the_instance s0 = inst" "wf_solution s0" "cache_ok s0"
    unfolding js0_def inst_def by blast
  have tm: "true_makespan (solution h) = sequence_makespan inst js0"
    by (simp add: true_makespan_def js0_def inst_def)
  from wf have valid: "ProblemInstance_isValid inst" and len: "int (length js0) = num_jobs inst"
    and range: "jobs_in_range inst js0"
    by (simp_all add: wf_solution_def js0_def inst_def)
  have all: "\<forall>i \<in> set [0..<length js0]. i < length js0" by simp
  from Horse_insertion_outer_ok [OF valid len range all, of "sequence_makespan inst js0"]
  obtain r where
    r: "Horse_insertion_outer inst (sequence_makespan inst js0) js0 [0..<length js0] = Inr r"
      "case first_improving_insertion inst js0 of
             None \<Rightarrow> r = None
           | Some (i, j) \<Rightarrow> \<exists>t. r = Some t \<and> job_sequence t = relocate js0 i j
                         \<and> the_instance t = inst \<and> wf_solution t \<and> cache_ok t"
    unfolding first_improving_insertion_def insertion_pairs_def by blast
  show ?thesis
  proof (cases "first_improving_insertion inst js0")
    case None
    with r have "r = None" by simp
    with r(1) s0(1,2,3) tm None
    have "Horse_applyInsertionSearch h =
            Inr (first_improving_insertion inst js0 \<noteq> None, h\<lparr> solution := s0 \<rparr>)"
      by (simp add: Horse_applyInsertionSearch_def)
    with None s0(2-5) show ?thesis unfolding js0_def inst_def by auto
  next
    case (Some p)
    obtain i j where p: "p = (i, j)" by (cases p)
    from r(2) Some p obtain t where
      t: "r = Some t" "job_sequence t = relocate js0 i j" "the_instance t = inst"
        "wf_solution t" "cache_ok t" by auto
    with r(1) s0(1,2,3) tm Some
    have "Horse_applyInsertionSearch h =
            Inr (first_improving_insertion inst js0 \<noteq> None, h\<lparr> solution := t \<rparr>)"
      by (simp add: Horse_applyInsertionSearch_def)
    with Some p t(2-5) show ?thesis unfolding js0_def inst_def by auto
  qed
qed


lemma wf_solution_length:
  "wf_solution s \<Longrightarrow> wf_solution s' \<Longrightarrow> the_instance s' = the_instance s \<Longrightarrow>
   length (job_sequence s') = length (job_sequence s)"
  by (simp add: wf_solution_def)

lemma apply2Opt_inner_ok:
  "wf_solution s \<Longrightarrow> cache_ok s \<Longrightarrow> the_instance s = inst \<Longrightarrow> i < length (job_sequence s) \<Longrightarrow>
   \<forall>j \<in> set js. j < length (job_sequence s) \<Longrightarrow>
   \<exists>s'. apply2Opt_inner i js (imp, true_makespan s, s) =
           Inr (imp \<or> true_makespan s' < true_makespan s, true_makespan s', s')
      \<and> job_sequence s' = fold (keep_if_better inst) (map (Pair i) js) (job_sequence s)
      \<and> true_makespan s' \<le> true_makespan s
      \<and> the_instance s' = inst \<and> wf_solution s' \<and> cache_ok s'"
proof (induction js arbitrary: imp s)
  case Nil
  then show ?case by simp
next
  case (Cons j js)
  define js0 where "js0 = job_sequence s"
  from Cons.prems have i: "i < length (job_sequence s)" and j: "j < length (job_sequence s)"
    and rest: "\<forall>j \<in> set js. j < length js0"
    by (simp_all add: js0_def)
  from swapJobs_ok [OF Cons.prems(1) i j] obtain s1 where
    s1: "swapJobs s (int i) (int j) = Inr s1" "job_sequence s1 = swap_at js0 i j"
      "the_instance s1 = inst" "wf_solution s1" "cache_ok s1"
    using Cons.prems(3) by (auto simp: js0_def)
  from getMakespan_ok' [OF s1(4,5)] obtain s2 where
    s2: "getMakespan s1 = Inr (true_makespan s1, s2)" "job_sequence s2 = job_sequence s1"
      "the_instance s2 = the_instance s1" "wf_solution s2" "cache_ok s2"
      "true_makespan s2 = true_makespan s1" by blast
  have tm1: "true_makespan s1 = sequence_makespan inst (swap_at js0 i j)"
    using s1 by (simp add: true_makespan_def)
  have tm0: "true_makespan s = sequence_makespan inst js0"
    using Cons.prems(3) by (simp add: true_makespan_def js0_def)
  have l2: "length (job_sequence s2) = length js0" using s2(2) s1(2) by simp
  show ?case
  proof (cases "true_makespan s1 < true_makespan s")
    case True
    have keep: "keep_if_better inst (i, j) js0 = job_sequence s2"
      using True tm1 tm0 s2(2) s1(2) by (simp add: keep_if_better_def)
    have inst2: "the_instance s2 = inst" using s2(3) s1(3) by simp
    have "\<exists>s'. apply2Opt_inner i js (True, true_makespan s2, s2) =
           Inr (True \<or> true_makespan s' < true_makespan s2, true_makespan s', s')
      \<and> job_sequence s' = fold (keep_if_better inst) (map (Pair i) js) (job_sequence s2)
      \<and> true_makespan s' \<le> true_makespan s2
      \<and> the_instance s' = inst \<and> wf_solution s' \<and> cache_ok s'"
      using i rest l2 by (intro Cons.IH [OF s2(4,5) inst2]) (simp_all add: js0_def)
    then obtain s' where
      s': "apply2Opt_inner i js (True, true_makespan s2, s2) = Inr (True, true_makespan s', s')"
        "job_sequence s' = fold (keep_if_better inst) (map (Pair i) js) (job_sequence s2)"
        "true_makespan s' \<le> true_makespan s2"
        "the_instance s' = inst" "wf_solution s'" "cache_ok s'" by auto
    have lt: "true_makespan s' < true_makespan s" using s'(3) s2(6) True by simp
    have run: "apply2Opt_inner i (j # js) (imp, true_makespan s, s) =
                 Inr (imp \<or> true_makespan s' < true_makespan s, true_makespan s', s')"
      using s1(1) s2(1,6) True s'(1) lt by simp
    have sq: "job_sequence s' = fold (keep_if_better inst) (map (Pair i) (j # js)) (job_sequence s)"
      using s'(2) keep by (simp add: js0_def)
    from run sq lt s'(4-6) show ?thesis by (intro exI [of _ s']) simp
  next
    case False
    have l: "i < length (job_sequence s2)" "j < length (job_sequence s2)"
      using l2 i j by (simp_all add: js0_def)
    from swapJobs_ok [OF s2(4) l] obtain s3 where
      s3: "swapJobs s2 (int i) (int j) = Inr s3" "job_sequence s3 = swap_at (job_sequence s2) i j"
        "the_instance s3 = the_instance s2" "wf_solution s3" "cache_ok s3" by blast
    have restored: "job_sequence s3 = js0"
      using s3(2) s2(2) s1(2) swap_at_twice [of i js0 j] i j by (simp add: js0_def)
    have inst3: "the_instance s3 = inst" using s3(3) s2(3) s1(3) by simp
    have tm3: "true_makespan s3 = true_makespan s"
      using restored inst3 tm0 by (simp add: true_makespan_def)
    have keep: "keep_if_better inst (i, j) js0 = job_sequence s3"
      using False tm1 tm0 restored by (simp add: keep_if_better_def)
    have "\<exists>s'. apply2Opt_inner i js (imp, true_makespan s3, s3) =
           Inr (imp \<or> true_makespan s' < true_makespan s3, true_makespan s', s')
      \<and> job_sequence s' = fold (keep_if_better inst) (map (Pair i) js) (job_sequence s3)
      \<and> true_makespan s' \<le> true_makespan s3
      \<and> the_instance s' = inst \<and> wf_solution s' \<and> cache_ok s'"
      using i rest restored by (intro Cons.IH [OF s3(4,5) inst3]) (simp_all add: js0_def)
    then obtain s' where
      s': "apply2Opt_inner i js (imp, true_makespan s, s3) =
             Inr (imp \<or> true_makespan s' < true_makespan s, true_makespan s', s')"
        "job_sequence s' = fold (keep_if_better inst) (map (Pair i) js) (job_sequence s3)"
        "true_makespan s' \<le> true_makespan s"
        "the_instance s' = inst" "wf_solution s'" "cache_ok s'"
      unfolding tm3 by auto
    have run: "apply2Opt_inner i (j # js) (imp, true_makespan s, s) =
                 Inr (imp \<or> true_makespan s' < true_makespan s, true_makespan s', s')"
      using s1(1) s2(1) False s3(1) s'(1) by simp
    have sq: "job_sequence s' = fold (keep_if_better inst) (map (Pair i) (j # js)) (job_sequence s)"
      using s'(2) keep by (simp add: js0_def)
    from run sq s'(3-6) show ?thesis by (intro exI [of _ s']) simp
  qed
qed

lemma apply2Opt_outer_ok:
  "wf_solution s \<Longrightarrow> cache_ok s \<Longrightarrow> the_instance s = inst \<Longrightarrow> n = length (job_sequence s) \<Longrightarrow>
   \<forall>i \<in> set ks. i < n \<Longrightarrow>
   \<exists>s'. apply2Opt_outer n ks (imp, true_makespan s, s) =
           Inr (imp \<or> true_makespan s' < true_makespan s, true_makespan s', s')
      \<and> job_sequence s' =
           fold (keep_if_better inst) (concat (map (\<lambda>i. map (Pair i) [Suc i..<n]) ks))
             (job_sequence s)
      \<and> true_makespan s' \<le> true_makespan s
      \<and> the_instance s' = inst \<and> wf_solution s' \<and> cache_ok s'"
proof (induction ks arbitrary: imp s)
  case Nil
  then show ?case by simp
next
  case (Cons i ks)
  have i: "i < length (job_sequence s)" using Cons.prems(4,5) by simp
  have all: "\<forall>j \<in> set [Suc i..<n]. j < length (job_sequence s)" using Cons.prems(4) by simp
  from apply2Opt_inner_ok [OF Cons.prems(1-3) i all, of imp] obtain s1 where
    s1: "apply2Opt_inner i [Suc i..<n] (imp, true_makespan s, s) =
           Inr (imp \<or> true_makespan s1 < true_makespan s, true_makespan s1, s1)"
      "job_sequence s1 = fold (keep_if_better inst) (map (Pair i) [Suc i..<n]) (job_sequence s)"
      "true_makespan s1 \<le> true_makespan s"
      "the_instance s1 = inst" "wf_solution s1" "cache_ok s1" by blast
  have n1: "n = length (job_sequence s1)"
    using wf_solution_length [OF Cons.prems(1) s1(5)] s1(4) Cons.prems(3,4) by simp
  have rest: "\<forall>i \<in> set ks. i < n" using Cons.prems(5) by simp
  from Cons.IH [OF s1(5,6,4) n1 rest, of "imp \<or> true_makespan s1 < true_makespan s"]
  obtain s' where
    s': "apply2Opt_outer n ks (imp \<or> true_makespan s1 < true_makespan s, true_makespan s1, s1) =
           Inr ((imp \<or> true_makespan s1 < true_makespan s) \<or> true_makespan s' < true_makespan s1,
                true_makespan s', s')"
      "job_sequence s' =
           fold (keep_if_better inst) (concat (map (\<lambda>i. map (Pair i) [Suc i..<n]) ks))
             (job_sequence s1)"
      "true_makespan s' \<le> true_makespan s1"
      "the_instance s' = inst" "wf_solution s'" "cache_ok s'" by blast
  have flag: "((imp \<or> true_makespan s1 < true_makespan s) \<or> true_makespan s' < true_makespan s1)
                = (imp \<or> true_makespan s' < true_makespan s)"
    using s1(3) s'(3) by auto
  have run: "apply2Opt_outer n (i # ks) (imp, true_makespan s, s) =
               Inr (imp \<or> true_makespan s' < true_makespan s, true_makespan s', s')"
    using s1(1) s'(1) flag by simp
  have sq: "job_sequence s' =
           fold (keep_if_better inst) (concat (map (\<lambda>i. map (Pair i) [Suc i..<n]) (i # ks)))
             (job_sequence s)"
    using s'(2) s1(2) by simp
  have le: "true_makespan s' \<le> true_makespan s" using s1(3) s'(3) by simp
  from run sq le s'(4-6) show ?case by (intro exI [of _ s']) simp
qed

lemma apply2Opt_ok:
  assumes wf: "wf_solution s" and c: "cache_ok s"
  shows "\<exists>s'. apply2Opt s = Inr (true_makespan s' < true_makespan s, s')
       \<and> job_sequence s' = improving_swap_pass (the_instance s) (job_sequence s)
       \<and> the_instance s' = the_instance s \<and> wf_solution s' \<and> cache_ok s'"
proof -
  from getMakespan_ok' [OF wf c] obtain s0 where
    s0: "getMakespan s = Inr (true_makespan s, s0)"
      "job_sequence s0 = job_sequence s" "the_instance s0 = the_instance s"
      "wf_solution s0" "cache_ok s0" "true_makespan s0 = true_makespan s" by blast
  define n where "n = length (job_sequence s0)"
  have all: "\<forall>i \<in> set [0..<n - 1]. i < n" by auto
  from apply2Opt_outer_ok [OF s0(4,5,3) n_def all, of False] obtain s' where
    s': "apply2Opt_outer n [0..<n - 1] (False, true_makespan s0, s0) =
           Inr (False \<or> true_makespan s' < true_makespan s0, true_makespan s', s')"
      "job_sequence s' =
           fold (keep_if_better (the_instance s)) (concat (map (\<lambda>i. map (Pair i) [Suc i..<n]) [0..<n - 1]))
             (job_sequence s0)"
      "the_instance s' = the_instance s" "wf_solution s'" "cache_ok s'" by blast
  have run: "apply2Opt s = Inr (true_makespan s' < true_makespan s, s')"
    using s0(1,6) s'(1) by (simp add: apply2Opt_def Let_def n_def)
  have sq: "job_sequence s' = improving_swap_pass (the_instance s) (job_sequence s)"
    using s'(2) s0(2) by (simp add: improving_swap_pass_def swap_pairs_def n_def)
  from run sq s'(3-5) show ?thesis by blast
qed


lemma apply2Opt_flag:
  assumes wf: "wf_solution s" and c: "cache_ok s"
  shows "\<exists>s'. apply2Opt s =
              Inr (sequence_makespan (the_instance s)
                     (improving_swap_pass (the_instance s) (job_sequence s))
                   < sequence_makespan (the_instance s) (job_sequence s), s')
       \<and> job_sequence s' = improving_swap_pass (the_instance s) (job_sequence s)"
proof -
  from apply2Opt_ok [OF wf c] obtain s' where
    s': "apply2Opt s = Inr (true_makespan s' < true_makespan s, s')"
      "job_sequence s' = improving_swap_pass (the_instance s) (job_sequence s)"
      "the_instance s' = the_instance s" by blast
  then show ?thesis by (intro exI [of _ s']) (simp add: true_makespan_def)
qed

text \<open>
  Claim C5, as stated, fails for the solution's own searches. On the order 3, 0, 1, 2 of
  the worked example (makespan 28) the first improving swap in scan order is that of
  positions 0 and 2, giving 1, 0, 3, 2 with makespan 27, and the first improving
  insertion moves position 0 to position 3, giving 0, 1, 3, 2. Neither search of the
  solution returns there: the 2-opt search ends with 2, 1, 3, 0 (makespan 24) and the
  insertion search with 2, 0, 1, 3.
\<close>

theorem solution_searches_continue:
  "job_sequence rotated_solution = [3, 0, 1, 2]
   \<and> the_instance rotated_solution = example_instance
   \<and> sequence_makespan example_instance [3, 0, 1, 2] = 28
   \<and> first_improving_swap example_instance [3, 0, 1, 2] = Some (0, 2)
   \<and> swap_at [3, 0, 1, 2] 0 2 = [1, 0, 3, 2 :: int]
   \<and> sequence_makespan example_instance [1, 0, 3, 2] = 27
   \<and> apply2Opt_outcome rotated_solution = Inr (True, [2, 1, 3, 0])
   \<and> sequence_makespan example_instance [2, 1, 3, 0] = 24
   \<and> first_improving_insertion example_instance [3, 0, 1, 2] = Some (0, 3)
   \<and> relocate [3, 0, 1, 2] 0 3 = [0, 1, 3, 2 :: int]
   \<and> applyInsertionSearch_outcome rotated_solution = Inr (True, [2, 0, 1, 3])"
  by code_simp

text \<open>
  Claim C5, amended. For a horse whose solution is well formed with a coherent cache, the agent's
  2-opt search and insertion search stop at the first position pair, in scan order,
  whose move gives a strictly smaller makespan, keep that move and return true; with no
  such pair they leave the sequence as it was and return false. The solution's own 2-opt
  search does not stop: it tries every pair \<open>i < j\<close> in order, keeps each swap that
  strictly improves on the sequence it has reached, undoes the others, and returns
  whether the makespan went down.
\<close>

theorem local_search_policies:
  assumes "wf_solution (solution h)" and "cache_ok (solution h)"
  shows "(\<exists>s'. apply2OptSearch h =
              Inr (first_improving_swap (the_instance (solution h)) (job_sequence (solution h)) \<noteq> None,
                   h\<lparr> solution := s' \<rparr>)
            \<and> job_sequence s' =
              (case first_improving_swap (the_instance (solution h)) (job_sequence (solution h)) of
                 None \<Rightarrow> job_sequence (solution h)
               | Some (i, j) \<Rightarrow> swap_at (job_sequence (solution h)) i j))
       \<and> (\<exists>s'. Horse_applyInsertionSearch h =
              Inr (first_improving_insertion (the_instance (solution h)) (job_sequence (solution h)) \<noteq> None,
                   h\<lparr> solution := s' \<rparr>)
            \<and> job_sequence s' =
              (case first_improving_insertion (the_instance (solution h)) (job_sequence (solution h)) of
                 None \<Rightarrow> job_sequence (solution h)
               | Some (i, j) \<Rightarrow> relocate (job_sequence (solution h)) i j))
       \<and> (\<exists>s'. apply2Opt (solution h) =
              Inr (sequence_makespan (the_instance (solution h))
                     (improving_swap_pass (the_instance (solution h)) (job_sequence (solution h)))
                   < sequence_makespan (the_instance (solution h)) (job_sequence (solution h)), s')
            \<and> job_sequence s' =
                improving_swap_pass (the_instance (solution h)) (job_sequence (solution h)))"
  using apply2OptSearch_ok [OF assms] Horse_applyInsertionSearch_ok [OF assms]
    apply2Opt_flag [OF assms]
  by blast

theorem local_search_policies_witness:
  "wf_solution (solution rotated_horse) \<and> cache_ok (solution rotated_horse)
   \<and> (\<exists>s'. apply2OptSearch rotated_horse = Inr (True, rotated_horse\<lparr> solution := s' \<rparr>)
          \<and> job_sequence s' = [1, 0, 3, 2])
   \<and> (\<exists>s'. Horse_applyInsertionSearch rotated_horse = Inr (True, rotated_horse\<lparr> solution := s' \<rparr>)
          \<and> job_sequence s' = [0, 1, 3, 2])
   \<and> (\<exists>s'. apply2Opt (solution rotated_horse) = Inr (True, s')
          \<and> job_sequence s' = [2, 1, 3, 0])"
proof -
  have sol: "solution rotated_horse = rotated_solution"
    by (simp add: rotated_horse_def)
  have js: "job_sequence rotated_solution = [3, 0, 1, 2]"
    and inst: "the_instance rotated_solution = example_instance"
    by (simp_all add: rotated_solution_def example_identity_def)
  have wf: "wf_solution (solution rotated_horse)"
    unfolding sol
    by (simp add: wf_solution_def js inst example_instance_def ProblemInstance_of_def
        ProblemInstance_isValid_def jobs_in_range_def)
  have c: "cache_ok (solution rotated_horse)"
    unfolding sol by (simp add: cache_ok_def rotated_solution_def example_identity_def)
  have sw: "first_improving_swap example_instance [3, 0, 1, 2] = Some (0, 2)"
    by code_simp
  have ins: "first_improving_insertion example_instance [3, 0, 1, 2] = Some (0, 3)"
    by code_simp
  have pass: "improving_swap_pass example_instance [3, 0, 1, 2] = [2, 1, 3, 0]"
    by code_simp
  have moved: "swap_at [3, 0, 1, 2] 0 2 = [1, 0, 3, 2::int]"
    "relocate [3, 0, 1, 2] 0 3 = [0, 1, 3, 2::int]"
    by code_simp+
  have before: "sequence_makespan example_instance [3, 0, 1, 2] = 28"
    by code_simp
  have after: "sequence_makespan example_instance [2, 1, 3, 0] = 24"
    by code_simp
  from local_search_policies [OF wf c] show ?thesis
    unfolding sol js inst sw ins pass before after using wf c
    by (simp add: moved sol)
qed

subsection \<open>Crossover\<close>

lemma isValid_loop_iff:
  "length used = nat n \<Longrightarrow>
   isValid_loop n js used \<longleftrightarrow>
     (distinct js \<and> (\<forall>job \<in> set js. 0 \<le> job \<and> job < n \<and> \<not> used ! nat job))"
proof (induction js arbitrary: used)
  case Nil
  then show ?case by simp
next
  case (Cons job js)
  show ?case
  proof (cases "0 \<le> job \<and> job < n \<and> \<not> used ! nat job")
    case False
    then show ?thesis by auto
  next
    case True
    have len: "length (used[nat job := True]) = nat n" using Cons.prems by simp
    have upd: "used[nat job := True] ! nat x = (x = job \<or> used ! nat x)"
      if "0 \<le> x" "x < n" for x
      using that True Cons.prems by (auto simp: nth_list_update)
    have "(\<forall>x \<in> set js. 0 \<le> x \<and> x < n \<and> \<not> used[nat job := True] ! nat x)
            \<longleftrightarrow> (job \<notin> set js \<and> (\<forall>x \<in> set js. 0 \<le> x \<and> x < n \<and> \<not> used ! nat x))"
      using upd by blast
    with Cons.IH [OF len] True show ?thesis by auto
  qed
qed

lemma Solution_isValid_iff:
  "Solution_isValid s \<longleftrightarrow>
     (int (length (job_sequence s)) = num_jobs (the_instance s)
      \<and> distinct (job_sequence s)
      \<and> (\<forall>job \<in> set (job_sequence s). 0 \<le> job \<and> job < num_jobs (the_instance s)))"
proof -
  have "isValid_loop n js (replicate (nat n) False)
          \<longleftrightarrow> (distinct js \<and> (\<forall>job \<in> set js. 0 \<le> job \<and> job < n))" for n js
    using isValid_loop_iff [of "replicate (nat n) False" n js] by auto
  then show ?thesis by (auto simp: Solution_isValid_def)
qed

lemma pmx_swap_first_mset:
  "pos2 < length offspring \<Longrightarrow> \<forall>j \<in> set js. j < length offspring \<Longrightarrow>
   mset (pmx_swap_first job pos2 js offspring) = mset offspring"
  by (induction js) (simp_all add: mset_swap_at)

lemma pmx_loop_ok:
  assumes sz: "1 \<le> sz" and l2: "length (job_sequence parent2) = nat sz"
  shows "length offspring = nat sz \<Longrightarrow>
     \<exists>offspring' g'. pmx_loop parent2 sz k offspring g = Inr (offspring', g')
        \<and> mset offspring' = mset offspring"
proof (induction k arbitrary: offspring g)
  case 0
  then show ?case by simp
next
  case (Suc k)
  from sz have r: "0 \<le> sz - 1" by simp
  from randInt_ok [OF r, of g] obtain pos1 where
    p1: "randInt 0 (sz - 1) g = Inr (pos1, drop 1 g)" "0 \<le> pos1" "pos1 \<le> sz - 1" by blast
  from randInt_ok [OF r, of "drop 1 g"] obtain pos2 where
    p2: "randInt 0 (sz - 1) (drop 1 g) = Inr (pos2, drop 1 (drop 1 g))" "0 \<le> pos2" "pos2 \<le> sz - 1"
    by blast
  have gj: "getJobAt parent2 pos1 = Inr (job_sequence parent2 ! nat pos1)"
    using p1 l2 by (simp add: getJobAt_def)
  define offspring1 where
    "offspring1 = pmx_swap_first (job_sequence parent2 ! nat pos1) (nat pos2) [0..<nat sz] offspring"
  have m: "mset offspring1 = mset offspring"
    unfolding offspring1_def using p2 Suc.prems by (intro pmx_swap_first_mset) auto
  then have "length offspring1 = nat sz" using Suc.prems mset_eq_length by metis
  from Suc.IH [OF this, of "drop 1 (drop 1 g)"] obtain offspring' g' where
    "pmx_loop parent2 sz k offspring1 (drop 1 (drop 1 g)) = Inr (offspring', g')"
    "mset offspring' = mset offspring1" by blast
  with p1(1) p2(1) gj m show ?case by (simp add: offspring1_def)
qed

lemma partiallyMappedCrossover_ok:
  assumes inst: "ProblemInstance_isValid (the_instance parent1)"
    and v1: "Solution_isValid parent1" and v2: "Solution_isValid parent2"
    and same: "the_instance parent2 = the_instance parent1"
    and n: "2 \<le> num_jobs (the_instance parent1)"
  shows "\<exists>child g'. partiallyMappedCrossover parent1 parent2 g = Inr (child, g')
           \<and> Solution_isValid child \<and> the_instance child = the_instance parent1
           \<and> mset (job_sequence child) = mset (job_sequence parent1)"
proof -
  define sz where "sz = getNumJobs parent1"
  have sz: "sz = num_jobs (the_instance parent1)" "sz = int (length (job_sequence parent1))"
    using v1 by (simp_all add: sz_def getNumJobs_def Solution_isValid_iff)
  have l2: "length (job_sequence parent2) = nat sz"
    using v2 same sz(1) by (auto simp: Solution_isValid_iff)
  have l1: "length (job_sequence parent1) = nat sz" using sz by simp
  have "1 \<le> min 3 (sz div 2)" using n sz by simp
  from randInt_ok [OF this, of g] obtain num_swaps where
    ns: "randInt 1 (min 3 (sz div 2)) g = Inr (num_swaps, drop 1 g)" by blast
  have one: "1 \<le> sz" using n sz by simp
  from pmx_loop_ok [OF one l2 l1, of "nat num_swaps" "drop 1 g"] obtain offspring g' where
    off: "pmx_loop parent2 sz (nat num_swaps) (job_sequence parent1) (drop 1 g) = Inr (offspring, g')"
      "mset offspring = mset (job_sequence parent1)" by blast
  from off(2) have len: "length offspring = length (job_sequence parent1)"
    and st: "set offspring = set (job_sequence parent1)"
    and d: "distinct offspring = distinct (job_sequence parent1)"
    using mset_eq_length mset_eq_setD mset_eq_imp_distinct_iff by blast+
  define child where "child = \<lparr> job_sequence = offspring, the_instance = the_instance parent1,
                 makespan = -1, makespan_calculated = False, completion_times = [] \<rparr>"
  have so: "Solution_of offspring (the_instance parent1) = Inr child"
    using inst len sz by (simp add: Solution_of_def child_def)
  have "Solution_isValid child"
    using v1 len st d by (simp add: Solution_isValid_iff child_def)
  moreover have "partiallyMappedCrossover parent1 parent2 g = Inr (child, g')"
    using ns off(1) so by (simp add: partiallyMappedCrossover_def sz_def [symmetric])
  ultimately show ?thesis using off(2) by (auto simp: child_def)
qed

lemma partiallyMappedCrossover_single:
  "length (job_sequence parent1) = 1 \<Longrightarrow>
   partiallyMappedCrossover parent1 parent2 g = Inl InvalidArgument"
  by (simp add: partiallyMappedCrossover_def getNumJobs_def randInt_def)


lemma ox_inv_initial: "ox_inv n (replicate n (-1), replicate n False)"
  by (simp add: ox_inv_def)

lemma ox_inv_put:
  assumes inv: "ox_inv n (offspring, used)" and p: "p < n" and empty: "offspring ! p = -1"
    and job: "0 \<le> job" "job < int n" and unused: "\<not> used ! nat job"
  shows "ox_inv n (offspring[p := job], used[nat job := True])"
proof -
  from inv have lo: "length offspring = n" and lu: "length used = n"
    and rng: "\<And>q. q < n \<Longrightarrow> offspring ! q \<noteq> -1 \<Longrightarrow>
                0 \<le> offspring ! q \<and> offspring ! q < int n \<and> used ! nat (offspring ! q)"
    and inj: "\<And>q r. q < n \<Longrightarrow> r < n \<Longrightarrow> offspring ! q \<noteq> -1 \<Longrightarrow>
                offspring ! q = offspring ! r \<Longrightarrow> q = r"
    and sur: "\<And>j. j < n \<Longrightarrow> used ! j \<Longrightarrow> \<exists>q<n. offspring ! q = int j"
    by (auto simp: ox_inv_def)
  have nj: "nat job < n" using job by simp
  have elsewhere: "offspring ! q \<noteq> job" if "q < n" for q
  proof
    assume e: "offspring ! q = job"
    with job have "offspring ! q \<noteq> -1" by simp
    from rng [OF that this] e unused show False by simp
  qed
  have a: "0 \<le> offspring[p := job] ! q \<and> offspring[p := job] ! q < int n
           \<and> used[nat job := True] ! nat (offspring[p := job] ! q)"
    if "q < n" "offspring[p := job] ! q \<noteq> -1" for q
  proof (cases "q = p")
    case True
    with p lo lu nj job show ?thesis by simp
  next
    case False
    with that have "offspring ! q \<noteq> -1" by simp
    from rng [OF that(1) this] False lu nj show ?thesis
      by (simp add: nth_list_update)
  qed
  have b: "q = r"
    if "q < n" "r < n" "offspring[p := job] ! q \<noteq> -1"
      "offspring[p := job] ! q = offspring[p := job] ! r" for q r
  proof (cases "q = p"; cases "r = p")
    assume "q = p" "r = p" then show ?thesis by simp
  next
    assume "q = p" "r \<noteq> p"
    with that p lo elsewhere [of r] show ?thesis by simp
  next
    assume "q \<noteq> p" "r = p"
    with that p lo elsewhere [of q] show ?thesis by simp
  next
    assume "q \<noteq> p" "r \<noteq> p"
    with that inj [of q r] show ?thesis by simp
  qed
  have c: "\<exists>q<n. offspring[p := job] ! q = int j" if "j < n" "used[nat job := True] ! j" for j
  proof (cases "j = nat job")
    case True
    with p lo job show ?thesis by (intro exI [of _ p]) simp
  next
    case False
    with that lu have "used ! j" by simp
    from sur [OF that(1) this] obtain q where q: "q < n" "offspring ! q = int j" by blast
    with empty have "q \<noteq> p" by auto
    with q show ?thesis by (intro exI [of _ q]) simp
  qed
  from lo lu a b c show ?thesis unfolding ox_inv_def by simp
qed

lemma ox_copy_segment_ok:
  assumes d1: "distinct (job_sequence parent1)"
    and r1: "\<forall>x \<in> set (job_sequence parent1). 0 \<le> x \<and> x < int n"
    and l1: "length (job_sequence parent1) = n"
  shows "ox_inv n (offspring, used) \<Longrightarrow> distinct ks \<Longrightarrow>
     \<forall>i \<in> set ks. 0 \<le> i \<and> i < int n \<and> offspring ! nat i = -1
        \<and> \<not> used ! nat (job_sequence parent1 ! nat i) \<Longrightarrow>
     \<exists>st'. ox_copy_segment parent1 (int n) ks (offspring, used) = Inr st' \<and> ox_inv n st'"
proof (induction ks arbitrary: offspring used)
  case Nil
  then show ?case by simp
next
  case (Cons i ks)
  define job where "job = job_sequence parent1 ! nat i"
  from Cons.prems have i: "0 \<le> i" "i < int n" "offspring ! nat i = -1" "\<not> used ! nat job"
    by (simp_all add: job_def)
  have ni: "nat i < n" using i by simp
  have gj: "getJobAt parent1 i = Inr job"
    using i l1 by (simp add: getJobAt_def job_def)
  have jr: "0 \<le> job" "job < int n"
    using r1 ni l1 by (simp_all add: job_def)
  from Cons.prems(1) have lo: "length offspring = n" and lu: "length used = n"
    by (simp_all add: ox_inv_def)
  have inv': "ox_inv n (offspring[nat i := job], used[nat job := True])"
    by (rule ox_inv_put [OF Cons.prems(1) ni i(3) jr i(4)])
  have rest: "\<forall>k \<in> set ks. 0 \<le> k \<and> k < int n \<and> offspring[nat i := job] ! nat k = -1
        \<and> \<not> used[nat job := True] ! nat (job_sequence parent1 ! nat k)"
  proof
    fix k assume k: "k \<in> set ks"
    with Cons.prems have kk: "0 \<le> k" "k < int n" "offspring ! nat k = -1"
      "\<not> used ! nat (job_sequence parent1 ! nat k)" "k \<noteq> i" by auto
    then have ne: "nat k \<noteq> nat i" using i by simp
    have "job_sequence parent1 ! nat k \<noteq> job"
      unfolding job_def using d1 ne kk ni l1 by (simp add: nth_eq_iff_index_eq)
    moreover have "0 \<le> job_sequence parent1 ! nat k" using r1 kk l1 by simp
    ultimately have "nat (job_sequence parent1 ! nat k) \<noteq> nat job" using jr by simp
    with kk ne show "0 \<le> k \<and> k < int n \<and> offspring[nat i := job] ! nat k = -1
        \<and> \<not> used[nat job := True] ! nat (job_sequence parent1 ! nat k)"
      by simp
  qed
  from Cons.prems(2) have "distinct ks" by simp
  from Cons.IH [OF inv' this rest] gj jr show ?case by simp
qed

lemma ox_next_empty_ok:
  "ox_next_empty sz offspring c < sz \<Longrightarrow> offspring ! ox_next_empty sz offspring c = -1"
proof (induction sz offspring c rule: ox_next_empty.induct)
  case (1 sz offspring current_pos)
  show ?case
  proof (cases "current_pos < sz \<and> offspring ! current_pos \<noteq> -1")
    case True
    then have e: "ox_next_empty sz offspring current_pos = ox_next_empty sz offspring (Suc current_pos)"
      by (subst ox_next_empty.simps) simp
    from 1(2) have "ox_next_empty sz offspring (Suc current_pos) < sz" by (simp only: e)
    from 1(1) [OF True this] show ?thesis by (simp only: e)
  next
    case False
    have e: "ox_next_empty sz offspring current_pos = current_pos"
      by (subst ox_next_empty.simps) (simp only: False if_False)
    from 1(2) have "current_pos < sz" by (simp only: e)
    with False show ?thesis by (simp only: e) simp
  qed
qed

lemma ox_fill_ok:
  assumes l2: "length (job_sequence parent2) = n"
  shows "ox_inv n (offspring, used) \<Longrightarrow> (c < n \<longrightarrow> offspring ! c = -1) \<Longrightarrow>
     \<forall>i \<in> set ks. i < n \<Longrightarrow>
     \<exists>offspring' used' c'. ox_fill parent2 n ks (offspring, used, c) = Inr (offspring', used', c')
        \<and> ox_inv n (offspring', used')"
proof (induction ks arbitrary: offspring used c)
  case Nil
  then show ?case by simp
next
  case (Cons i ks)
  show ?case
  proof (cases "c < n")
    case False
    with Cons.prems(1) show ?thesis by simp
  next
    case True
    define job where "job = job_sequence parent2 ! i"
    have gj: "getJobAt parent2 (int i) = Inr job"
      using Cons.prems(3) l2 by (simp add: getJobAt_def job_def)
    from Cons.prems(3) have rest: "\<forall>i \<in> set ks. i < n" by simp
    show ?thesis
    proof (cases "job \<ge> 0 \<and> job < int n \<and> \<not> used ! nat job")
      case place: True
      define offspring1 where "offspring1 = offspring[c := job]"
      define c1 where "c1 = ox_next_empty n offspring1 (Suc c)"
      have inv': "ox_inv n (offspring1, used[nat job := True])"
        unfolding offspring1_def
        using ox_inv_put [OF Cons.prems(1) True _ _ _ _, of job] Cons.prems(2) True place by simp
      have nxt: "c1 < n \<longrightarrow> offspring1 ! c1 = -1"
        unfolding c1_def using ox_next_empty_ok by blast
      from Cons.IH [OF inv' nxt rest] True gj place show ?thesis
        by (simp add: offspring1_def c1_def)
    next
      case skip: False
      from Cons.IH [OF Cons.prems(1,2) rest] True gj skip show ?thesis by auto
    qed
  qed
qed

lemma ox_place_ok:
  "ox_inv n (offspring, used) \<Longrightarrow> i < n \<Longrightarrow> \<not> used ! i \<Longrightarrow> \<forall>j \<in> set js. j < n \<Longrightarrow>
   ox_place i js (offspring, used) = (offspring', used') \<Longrightarrow>
   ox_inv n (offspring', used')
   \<and> (\<forall>p<n. offspring ! p \<noteq> -1 \<longrightarrow> offspring' ! p \<noteq> -1)
   \<and> (\<forall>j<n. used ! j \<longrightarrow> used' ! j)
   \<and> (used' ! i \<or> ((\<forall>j \<in> set js. offspring ! j \<noteq> -1) \<and> offspring' = offspring \<and> used' = used))"
proof (induction js)
  case Nil
  then show ?case by simp
next
  case (Cons j js)
  show ?case
  proof (cases "offspring ! j = -1")
    case True
    from Cons.prems have j: "j < n" by simp
    from Cons.prems(1) have lo: "length offspring = n" and lu: "length used = n"
      by (simp_all add: ox_inv_def)
    have inv': "ox_inv n (offspring[j := int i], used[nat (int i) := True])"
      using ox_inv_put [OF Cons.prems(1) j True, of "int i"] Cons.prems(2,3) by simp
    from Cons.prems(5) True have res: "offspring' = offspring[j := int i]" "used' = used[i := True]"
      by simp_all
    have "\<forall>p<n. offspring ! p \<noteq> -1 \<longrightarrow> offspring' ! p \<noteq> -1"
      unfolding res using True lo j by (auto simp: nth_list_update)
    moreover have "\<forall>k<n. used ! k \<longrightarrow> used' ! k"
      unfolding res using lu Cons.prems(2) by (auto simp: nth_list_update)
    moreover have "used' ! i" unfolding res using lu Cons.prems(2) by simp
    ultimately show ?thesis using inv' res by simp
  next
    case False
    with Cons.prems have "ox_place i js (offspring, used) = (offspring', used')" by simp
    from Cons.IH [OF Cons.prems(1-3) _ this] Cons.prems(4) False show ?thesis by auto
  qed
qed

lemma ox_gaps_ok:
  "ox_inv n (offspring, used) \<Longrightarrow> \<forall>i \<in> set ks. i < n \<Longrightarrow>
   ox_gaps n ks (offspring, used) = (offspring', used') \<Longrightarrow>
   ox_inv n (offspring', used')
   \<and> (\<forall>p<n. offspring ! p \<noteq> -1 \<longrightarrow> offspring' ! p \<noteq> -1)
   \<and> (\<forall>j<n. used ! j \<longrightarrow> used' ! j)
   \<and> ((\<forall>p<n. offspring' ! p \<noteq> -1) \<or> (\<forall>i \<in> set ks. used' ! i))"
proof (induction ks arbitrary: offspring used)
  case Nil
  then show ?case by simp
next
  case (Cons i ks)
  from Cons.prems have i: "i < n" and rest: "\<forall>i \<in> set ks. i < n" by simp_all
  show ?case
  proof (cases "used ! i")
    case True
    with Cons.prems have run: "ox_gaps n ks (offspring, used) = (offspring', used')" by simp
    from Cons.IH [OF Cons.prems(1) rest run] True i show ?thesis by auto
  next
    case False
    obtain offspring1 used1 where
      pl: "ox_place i [0..<n] (offspring, used) = (offspring1, used1)"
      by (cases "ox_place i [0..<n] (offspring, used)")
    have all: "\<forall>j \<in> set [0..<n]. j < n" by simp
    from ox_place_ok [OF Cons.prems(1) i False all pl] have
      inv1: "ox_inv n (offspring1, used1)"
      and keep1: "\<forall>p<n. offspring ! p \<noteq> -1 \<longrightarrow> offspring1 ! p \<noteq> -1"
      and mono1: "\<forall>j<n. used ! j \<longrightarrow> used1 ! j"
      and done1: "used1 ! i \<or> (\<forall>j \<in> set [0..<n]. offspring ! j \<noteq> -1)"
      by blast+
    from Cons.prems(3) False pl have run: "ox_gaps n ks (offspring1, used1) = (offspring', used')"
      by simp
    from Cons.IH [OF inv1 rest run] have
      inv': "ox_inv n (offspring', used')"
      and keep': "\<forall>p<n. offspring1 ! p \<noteq> -1 \<longrightarrow> offspring' ! p \<noteq> -1"
      and mono': "\<forall>j<n. used1 ! j \<longrightarrow> used' ! j"
      and done': "(\<forall>p<n. offspring' ! p \<noteq> -1) \<or> (\<forall>i \<in> set ks. used' ! i)"
      by blast+
    have "(\<forall>p<n. offspring' ! p \<noteq> -1) \<or> used' ! i"
      using done1 keep1 keep' mono' i by auto
    with done' have "(\<forall>p<n. offspring' ! p \<noteq> -1) \<or> (\<forall>k \<in> set (i # ks). used' ! k)"
      by auto
    with inv' keep1 keep' mono1 mono' show ?thesis by simp
  qed
qed

lemma ox_inv_final:
  assumes inv: "ox_inv n (offspring, used)"
    and fin: "(\<forall>p<n. offspring ! p \<noteq> -1) \<or> (\<forall>j<n. used ! j)"
  shows "length offspring = n \<and> distinct offspring
       \<and> (\<forall>x \<in> set offspring. 0 \<le> x \<and> x < int n)"
proof -
  from inv have lo: "length offspring = n"
    and rng: "\<And>q. q < n \<Longrightarrow> offspring ! q \<noteq> -1 \<Longrightarrow>
                0 \<le> offspring ! q \<and> offspring ! q < int n"
    and inj: "\<And>q r. q < n \<Longrightarrow> r < n \<Longrightarrow> offspring ! q \<noteq> -1 \<Longrightarrow>
                offspring ! q = offspring ! r \<Longrightarrow> q = r"
    and sur: "\<And>j. j < n \<Longrightarrow> used ! j \<Longrightarrow> \<exists>q<n. offspring ! q = int j"
    by (auto simp: ox_inv_def)
  have full: "\<forall>p<n. offspring ! p \<noteq> -1"
  proof (rule disjE [OF fin])
    assume "\<forall>j<n. used ! j"
    with sur have all: "\<forall>j<n. \<exists>q<n. offspring ! q = int j" by blast
    have sub: "int ` {..<n} \<subseteq> set offspring"
    proof
      fix x assume "x \<in> int ` {..<n}"
      then obtain j where j: "j < n" "x = int j" by auto
      with all obtain q where "q < n" "offspring ! q = int j" by blast
      with lo j show "x \<in> set offspring" by (auto simp: in_set_conv_nth)
    qed
    have "card (int ` {..<n}) = n" by (simp add: card_image)
    moreover have "card (set offspring) \<le> n" using card_length [of offspring] lo by simp
    moreover have "card (int ` {..<n}) \<le> card (set offspring)"
      by (rule card_mono [OF _ sub]) simp
    ultimately have "card (int ` {..<n}) = card (set offspring)" by simp
    with sub have "int ` {..<n} = set offspring" by (intro card_subset_eq) simp_all
    moreover have "-1 \<notin> int ` {..<n}" by auto
    ultimately have "-1 \<notin> set offspring" by simp
    with lo show ?thesis by (auto simp: in_set_conv_nth)
  qed
  have "distinct offspring"
    unfolding distinct_conv_nth using lo inj full by auto
  moreover have "\<forall>x \<in> set offspring. 0 \<le> x \<and> x < int n"
    using lo rng full by (auto simp: in_set_conv_nth)
  ultimately show ?thesis using lo by simp
qed


lemma orderCrossover_ok:
  assumes inst: "ProblemInstance_isValid (the_instance parent1)"
    and v1: "Solution_isValid parent1" and v2: "Solution_isValid parent2"
    and same: "the_instance parent2 = the_instance parent1"
  shows "\<exists>child g'. orderCrossover parent1 parent2 g = Inr (child, g')
           \<and> Solution_isValid child \<and> the_instance child = the_instance parent1"
proof -
  define n where "n = length (job_sequence parent1)"
  have len: "int n = num_jobs (the_instance parent1)"
    and d1: "distinct (job_sequence parent1)"
    and r1: "\<forall>x \<in> set (job_sequence parent1). 0 \<le> x \<and> x < int n"
    using v1 by (simp_all add: Solution_isValid_iff n_def)
  have l1: "length (job_sequence parent1) = n" by (simp add: n_def)
  have l2: "length (job_sequence parent2) = n"
    using v2 same len by (auto simp: Solution_isValid_iff)
  have sz: "getNumJobs parent1 = int n" by (simp add: getNumJobs_def n_def)
  have pos: "0 \<le> int n - 1"
    using inst len by (simp add: ProblemInstance_isValid_def split: if_splits)
  from randInt_ok [OF pos, of g] obtain a where
    a: "randInt 0 (int n - 1) g = Inr (a, drop 1 g)" "0 \<le> a" "a \<le> int n - 1" by blast
  from randInt_ok [OF pos, of "drop 1 g"] obtain b where
    b: "randInt 0 (int n - 1) (drop 1 g) = Inr (b, drop 1 (drop 1 g))" "0 \<le> b" "b \<le> int n - 1"
    by blast
  define point1 where "point1 = (if a > b then b else a)"
  define point2 where "point2 = (if a > b then a else b)"
  have pts: "0 \<le> point1" "point2 \<le> int n - 1"
    using a b by (simp_all add: point1_def point2_def)
  have seg: "\<forall>i \<in> set [point1..point2]. 0 \<le> i \<and> i < int n
        \<and> replicate n (-1 :: int) ! nat i = -1
        \<and> \<not> replicate n False ! nat (job_sequence parent1 ! nat i)"
  proof
    fix i assume "i \<in> set [point1..point2]"
    with pts have i: "0 \<le> i" "i < int n" by simp_all
    then have ni: "nat i < n" by simp
    with r1 l1 have "0 \<le> job_sequence parent1 ! nat i" "job_sequence parent1 ! nat i < int n"
      by simp_all
    then have "nat (job_sequence parent1 ! nat i) < n" by simp
    with i ni show "0 \<le> i \<and> i < int n \<and> replicate n (-1 :: int) ! nat i = -1
        \<and> \<not> replicate n False ! nat (job_sequence parent1 ! nat i)" by simp
  qed
  have dseg: "distinct [point1..point2]" by simp
  from ox_copy_segment_ok [OF d1 r1 l1 ox_inv_initial dseg seg] obtain offspring1 used1 where
    c: "ox_copy_segment parent1 (int n) [point1..point2] (replicate n (-1), replicate n False)
          = Inr (offspring1, used1)"
    and inv1: "ox_inv n (offspring1, used1)" by auto
  have nxt: "ox_next_empty n offspring1 0 < n \<longrightarrow> offspring1 ! ox_next_empty n offspring1 0 = -1"
    using ox_next_empty_ok by blast
  have all: "\<forall>i \<in> set [0..<n]. i < n" by simp
  from ox_fill_ok [OF l2 inv1 nxt all] obtain offspring2 used2 c2 where
    f: "ox_fill parent2 n [0..<n] (offspring1, used1, ox_next_empty n offspring1 0)
          = Inr (offspring2, used2, c2)"
    and inv2: "ox_inv n (offspring2, used2)" by blast
  obtain offspring3 used3 where
    gp: "ox_gaps n [0..<n] (offspring2, used2) = (offspring3, used3)"
    by (cases "ox_gaps n [0..<n] (offspring2, used2)")
  from ox_gaps_ok [OF inv2 all gp] have inv3: "ox_inv n (offspring3, used3)"
    and fin: "(\<forall>p<n. offspring3 ! p \<noteq> -1) \<or> (\<forall>j<n. used3 ! j)" by auto
  from ox_inv_final [OF inv3 fin] have res: "length offspring3 = n" "distinct offspring3"
    "\<forall>x \<in> set offspring3. 0 \<le> x \<and> x < int n" by simp_all
  define child where "child = \<lparr> job_sequence = offspring3, the_instance = the_instance parent1,
                 makespan = -1, makespan_calculated = False, completion_times = [] \<rparr>"
  have so: "Solution_of offspring3 (the_instance parent1) = Inr child"
    using inst len res(1) by (simp add: Solution_of_def child_def)
  have valid: "Solution_isValid child"
    using res len by (simp add: Solution_isValid_iff child_def)
  have "orderCrossover parent1 parent2 g = Inr (child, drop 1 (drop 1 g))"
    unfolding orderCrossover_def sz Let_def
    using a(1) b(1) c f gp so
    by (simp add: point1_def [symmetric] point2_def [symmetric])
  with valid show ?thesis by (auto simp: child_def)
qed

text \<open>
  Claim C2 fails on the code for instances of one job. \<^verbatim>\<open>partiallyMappedCrossover\<close>
  draws its number of swaps with \<^verbatim>\<open>randInt(1, std::min(3, size/2))\<close>; with one job the
  upper bound is 0 and \<^verbatim>\<open>Random::randInt\<close> throws \<^verbatim>\<open>std::invalid_argument\<close>, whatever
  the random draws. The instance and the parent are valid, order crossover returns the
  only permutation, and \<^verbatim>\<open>followLeader\<close> and \<^verbatim>\<open>mateWith\<close> raise as soon as their coin
  picks the partially-mapped operator.
\<close>

theorem partiallyMappedCrossover_single_job_raises:
  "ProblemInstance_isValid single_job_instance
   \<and> num_jobs single_job_instance = 1
   \<and> the_instance single_job_solution = single_job_instance
   \<and> Solution_isValid single_job_solution
   \<and> partiallyMappedCrossover single_job_solution single_job_solution [4, 7, 5]
       = Inl InvalidArgument
   \<and> orderCrossover single_job_solution single_job_solution [4, 7, 5]
       = Inr (single_job_solution, [5])
   \<and> followLeader single_job_horse single_job_horse 0.7 [9007199254740991, 4, 7]
       = Inl InvalidArgument
   \<and> mateWith single_job_horse single_job_horse 0.8 [0, 9007199254740991, 4, 7]
       = Inl InvalidArgument"
  by code_simp

text \<open>
  Claim C2, what the code guarantees. For parents that are valid permutations over the
  same valid instance and for every state of the random source, order crossover returns
  a solution over that instance whose job sequence is a valid permutation; the
  partially-mapped crossover does the same when the instance has at least two jobs, and
  raises an invalid-argument error when it has one.
\<close>

theorem crossover_validity:
  assumes "ProblemInstance_isValid (the_instance parent1)"
    and "Solution_isValid parent1" and "Solution_isValid parent2"
    and "the_instance parent2 = the_instance parent1"
  shows "(\<exists>child g'. orderCrossover parent1 parent2 g = Inr (child, g')
            \<and> Solution_isValid child \<and> the_instance child = the_instance parent1)
       \<and> (if num_jobs (the_instance parent1) = 1
          then partiallyMappedCrossover parent1 parent2 g = Inl InvalidArgument
          else \<exists>child g'. partiallyMappedCrossover parent1 parent2 g = Inr (child, g')
                 \<and> Solution_isValid child \<and> the_instance child = the_instance parent1)"
proof -
  have n: "int (length (job_sequence parent1)) = num_jobs (the_instance parent1)"
    using assms(2) by (simp add: Solution_isValid_iff)
  have pos: "1 \<le> num_jobs (the_instance parent1)"
    using assms(1) by (simp add: ProblemInstance_isValid_def split: if_splits)
  show ?thesis
  proof (cases "num_jobs (the_instance parent1) = 1")
    case True
    with n have "length (job_sequence parent1) = 1" by simp
    from partiallyMappedCrossover_single [OF this] True orderCrossover_ok [OF assms]
    show ?thesis by simp
  next
    case False
    with pos have "2 \<le> num_jobs (the_instance parent1)" by simp
    from partiallyMappedCrossover_ok [OF assms this] False orderCrossover_ok [OF assms]
    show ?thesis by (simp only: if_False) blast
  qed
qed

theorem crossover_validity_witness:
  "ProblemInstance_isValid (the_instance example_identity)
   \<and> Solution_isValid example_identity \<and> Solution_isValid example_reversed
   \<and> the_instance example_reversed = the_instance example_identity
   \<and> (\<exists>child g'. orderCrossover example_identity example_reversed [1, 2, 5] = Inr (child, g')
         \<and> Solution_isValid child \<and> the_instance child = the_instance example_identity)
   \<and> (\<exists>child g'. partiallyMappedCrossover example_identity example_reversed [4, 7, 5]
           = Inr (child, g')
         \<and> Solution_isValid child \<and> the_instance child = the_instance example_identity)
   \<and> ProblemInstance_isValid (the_instance single_job_solution)
   \<and> Solution_isValid single_job_solution
   \<and> partiallyMappedCrossover single_job_solution single_job_solution [] = Inl InvalidArgument"
proof -
  have four: "ProblemInstance_isValid (the_instance example_identity)"
    "Solution_isValid example_identity" "Solution_isValid example_reversed"
    "the_instance example_reversed = the_instance example_identity"
    by code_simp+
  have n4: "num_jobs (the_instance example_identity) \<noteq> 1"
    by code_simp
  have one: "ProblemInstance_isValid (the_instance single_job_solution)"
    "Solution_isValid single_job_solution"
    "the_instance single_job_solution = the_instance single_job_solution"
    by code_simp+
  have n1: "num_jobs (the_instance single_job_solution) = 1"
    by code_simp
  from crossover_validity [OF four, of "[1, 2, 5]"] crossover_validity [OF four, of "[4, 7, 5]"]
    crossover_validity [OF one(1,2,2,3), of "[]"] four one(1,2) n4 n1
  show ?thesis by simp
qed

end
